theory Spec2Isabelle
  imports Complex_Main
begin

section \<open>JavaScript numbers\<close>

text \<open>
  The program computes with JavaScript numbers, the binary64 numbers of IEEE 754. A
  number is a finite value or one of the three special values. A finite value carries a
  real; the numbers of the program are those that binary64 represents (\<open>is_double\<close>
  below). Every arithmetic operation rounds its exact result to the nearest of them, a tie
  to the one with the even significand, and to an infinity on overflow, so the result of
  an operation is always a number of the program. \<open>NaN\<close> is absorbing and compares false
  with everything; \<open>Infinity - Infinity\<close> and \<open>0 * Infinity\<close> are \<open>NaN\<close>. The sign of
  zero is not modelled.
\<close>

datatype number = Fin real | PInf | NInf | NaN

text \<open>Rounding a real to the nearest integer, a tie to the even one.\<close>

definition rhe :: "real \<Rightarrow> int" where
  "rhe q =
     (let f = \<lfloor>q\<rfloor>; d = q - of_int f
      in if d < 1 / 2 then f
         else if 1 / 2 < d then f + 1
         else if even f then f else f + 1)"

text \<open>
  A positive real \<open>a\<close> is scaled to \<open>a = q * 2 ^ e\<close> with \<open>2 ^ 52 \<le> q < 2 ^ 53\<close>, the
  exponent kept within \<open>-1074 \<le> e\<close> (below, \<open>q < 2 ^ 52\<close>: the subnormal numbers) and
  \<open>e \<le> 972\<close> (at 972 the number is beyond the largest binary64 number).
\<close>

function norm_dn :: "real \<Rightarrow> int \<Rightarrow> real \<times> int" where
  "norm_dn q e = (if 2 ^ 52 \<le> q \<or> e \<le> - 1074 then (q, e) else norm_dn (2 * q) (e - 1))"
  by pat_completeness auto
termination
  by (relation "measure (\<lambda>(q, e). nat (e + 1074))") auto

function norm_up :: "real \<Rightarrow> int \<Rightarrow> real \<times> int" where
  "norm_up q e = (if q < 2 ^ 53 \<or> 971 < e then (q, e) else norm_up (q / 2) (e + 1))"
  by pat_completeness auto
termination
  by (relation "measure (\<lambda>(q, e). nat (972 - e))") auto

declare norm_dn.simps [simp del] norm_up.simps [simp del]

definition normalise :: "real \<Rightarrow> real \<times> int" where
  "normalise a = (if 2 ^ 52 \<le> a then norm_up a 0 else norm_dn a 0)"

text \<open>
  Rounding a real to binary64: the significand \<open>q\<close> is rounded to an integer, and a
  result of \<open>2 ^ 1024\<close> or more is an infinity.
\<close>

definition round64 :: "real \<Rightarrow> number" where
  "round64 x =
     (if x = 0 then Fin 0
      else
        (case normalise \<bar>x\<bar> of (q, e) \<Rightarrow>
           let m = rhe q
           in if 971 < e \<or> (e = 971 \<and> 2 ^ 53 \<le> m) then (if 0 < x then PInf else NInf)
              else Fin (sgn x * of_int m * 2 powi e)))"

text \<open>A real is a binary64 number when rounding leaves it as it is.\<close>

definition is_double :: "real \<Rightarrow> bool" where
  "is_double r = (round64 r = Fin r)"

text \<open>A decimal literal of the source denotes the binary64 number nearest to it.\<close>

definition lit :: "real \<Rightarrow> number" where
  "lit r = round64 r"

instantiation number :: "{plus, minus, uminus, times, inverse, ord, abs}"
begin

fun plus_number :: "number \<Rightarrow> number \<Rightarrow> number" where
  "plus_number (Fin a) (Fin b) = round64 (a + b)"
| "plus_number NaN _ = NaN"
| "plus_number _ NaN = NaN"
| "plus_number PInf NInf = NaN"
| "plus_number NInf PInf = NaN"
| "plus_number PInf _ = PInf"
| "plus_number _ PInf = PInf"
| "plus_number NInf _ = NInf"
| "plus_number _ NInf = NInf"

fun minus_number :: "number \<Rightarrow> number \<Rightarrow> number" where
  "minus_number (Fin a) (Fin b) = round64 (a - b)"
| "minus_number NaN _ = NaN"
| "minus_number _ NaN = NaN"
| "minus_number PInf PInf = NaN"
| "minus_number NInf NInf = NaN"
| "minus_number PInf _ = PInf"
| "minus_number NInf _ = NInf"
| "minus_number _ PInf = NInf"
| "minus_number _ NInf = PInf"

fun uminus_number :: "number \<Rightarrow> number" where
  "uminus_number (Fin a) = Fin (- a)"
| "uminus_number PInf = NInf"
| "uminus_number NInf = PInf"
| "uminus_number NaN = NaN"

fun times_number :: "number \<Rightarrow> number \<Rightarrow> number" where
  "times_number (Fin a) (Fin b) = round64 (a * b)"
| "times_number NaN _ = NaN"
| "times_number _ NaN = NaN"
| "times_number PInf (Fin b) = (if b = 0 then NaN else if 0 < b then PInf else NInf)"
| "times_number NInf (Fin b) = (if b = 0 then NaN else if 0 < b then NInf else PInf)"
| "times_number (Fin a) PInf = (if a = 0 then NaN else if 0 < a then PInf else NInf)"
| "times_number (Fin a) NInf = (if a = 0 then NaN else if 0 < a then NInf else PInf)"
| "times_number PInf PInf = PInf"
| "times_number NInf NInf = PInf"
| "times_number PInf NInf = NInf"
| "times_number NInf PInf = NInf"

fun divide_number :: "number \<Rightarrow> number \<Rightarrow> number" where
  "divide_number (Fin a) (Fin b) =
     (if b = 0 then (if a = 0 then NaN else if 0 < a then PInf else NInf)
      else round64 (a / b))"
| "divide_number NaN _ = NaN"
| "divide_number _ NaN = NaN"
| "divide_number (Fin a) PInf = Fin 0"
| "divide_number (Fin a) NInf = Fin 0"
| "divide_number PInf (Fin b) = (if 0 \<le> b then PInf else NInf)"
| "divide_number NInf (Fin b) = (if 0 \<le> b then NInf else PInf)"
| "divide_number PInf PInf = NaN"
| "divide_number PInf NInf = NaN"
| "divide_number NInf PInf = NaN"
| "divide_number NInf NInf = NaN"

definition inverse_number :: "number \<Rightarrow> number" where
  "inverse_number a = (divide :: number \<Rightarrow> number \<Rightarrow> number) (Fin 1) a"

fun less_number :: "number \<Rightarrow> number \<Rightarrow> bool" where
  "less_number (Fin a) (Fin b) = (a < b)"
| "less_number NaN _ = False"
| "less_number _ NaN = False"
| "less_number _ NInf = False"
| "less_number PInf _ = False"
| "less_number NInf _ = True"
| "less_number (Fin a) PInf = True"

fun less_eq_number :: "number \<Rightarrow> number \<Rightarrow> bool" where
  "less_eq_number (Fin a) (Fin b) = (a \<le> b)"
| "less_eq_number NaN _ = False"
| "less_eq_number _ NaN = False"
| "less_eq_number NInf _ = True"
| "less_eq_number _ PInf = True"
| "less_eq_number _ NInf = False"
| "less_eq_number PInf _ = False"

fun abs_number :: "number \<Rightarrow> number" where
  "abs_number (Fin a) = Fin \<bar>a\<bar>"
| "abs_number PInf = PInf"
| "abs_number NInf = PInf"
| "abs_number NaN = NaN"

instance ..

end

text \<open>The global \<open>isFinite\<close> on a number.\<close>

fun isFinite :: "number \<Rightarrow> bool" where
  "isFinite (Fin a) = True"
| "isFinite PInf = False"
| "isFinite NInf = False"
| "isFinite NaN = False"

section \<open>Exceptions and the external expression evaluator\<close>

text \<open>
  A thrown value is an \<open>Error\<close> object with its message, or some other value. A call that
  may throw returns \<open>Inl\<close> of the thrown value or \<open>Inr\<close> of its result.
\<close>

datatype js_exception = JsError string | NonError

text \<open>
  \<open>evaluate(expr, scope)\<close> of mathjs is not part of the repository: it is a parameter of
  every function that calls it. The scope \<open>{ x, y }\<close> is the pair \<open>(x, y)\<close>. The evaluator
  returns a number or throws.
\<close>

type_synonym evaluator = "string \<Rightarrow> number \<times> number \<Rightarrow> js_exception + number"

type_synonym slope_function = "number \<Rightarrow> number \<Rightarrow> js_exception + number"

text \<open>
  An evaluator for instantiating the theorems at concrete inputs: on the texts \<open>x+y\<close>,
  \<open>x + y\<close> and \<open>y/x\<close> it computes the sum and the quotient as mathjs does on numbers,
  and on every other text it throws an \<open>Error\<close>, as mathjs throws a \<open>SyntaxError\<close> on
  the malformed \<open>x +\<close>.
\<close>

definition sample_evaluate :: evaluator where
  "sample_evaluate expr scope =
     (if expr = ''x+y'' \<or> expr = ''x + y'' then Inr (fst scope + snd scope)
      else if expr = ''y/x'' then Inr (snd scope / fst scope)
      else Inl (JsError ''Unexpected end of expression''))"

section \<open>Equation text\<close>

text \<open>
  Strings are lists of 8-bit characters. The class \<open>\s\<close> of the regular expression is
  modelled on these characters only.
\<close>

definition is_space :: "char \<Rightarrow> bool" where
  "is_space c = (c = CHR '' '' \<or> c = CHR 0x09 \<or> c = CHR 0x0A \<or> c = CHR 0x0B
     \<or> c = CHR 0x0C \<or> c = CHR 0x0D \<or> c = CHR 0xA0)"

text \<open>
  A match of \<open>/dy\/dx\s*=\s*/\<close> at the head of the string: the text after the match.
  Both \<open>\s*\<close> are greedy, and the character after each is not a space, so no
  backtracking changes the match.
\<close>

definition match_dydx :: "string \<Rightarrow> string option" where
  "match_dydx s =
     (if take 5 s = ''dy/dx'' then
        (case dropWhile is_space (drop 5 s) of
           [] \<Rightarrow> None
         | c # rest \<Rightarrow> if c = CHR ''='' then Some (dropWhile is_space rest) else None)
      else None)"

text \<open>\<open>s.replace(/dy\/dx\s*=\s*/, '')\<close>: the leftmost match is removed, if there is one.\<close>

fun replace_dydx :: "string \<Rightarrow> string" where
  "replace_dydx [] = []"
| "replace_dydx (c # cs) =
     (case match_dydx (c # cs) of Some rest \<Rightarrow> rest | None \<Rightarrow> c # replace_dydx cs)"

text \<open>\<open>s.replace(/\^/g, '**')\<close>.\<close>

definition replace_caret :: "string \<Rightarrow> string" where
  "replace_caret s = concat (map (\<lambda>c. if c = CHR ''^'' then ''**'' else [c]) s)"

text \<open>\<open>s.includes(t)\<close>.\<close>

fun js_includes :: "string \<Rightarrow> string \<Rightarrow> bool" where
  "js_includes [] t = (t = [])"
| "js_includes (c # cs) t = (take (length t) (c # cs) = t \<or> js_includes cs t)"

text \<open>The two assignments to \<open>processedEq\<close>, the same in both components.\<close>

definition processedEq :: "string \<Rightarrow> string" where
  "processedEq eqStr = replace_caret (replace_dydx eqStr)"

section \<open>The two compilers\<close>

text \<open>
  \<open>parseEquation\<close> of \<open>EquationSolver.vue\<close>. The \<open>try\<close> block holds the two \<open>replace\<close>
  calls and the creation of the closure, none of which throws, so its \<open>catch\<close> is never
  entered. The closure calls the evaluator outside any \<open>try\<close>: what the evaluator throws,
  the closure throws, and what it returns, the closure returns.
\<close>

definition solver_parseEquation :: "evaluator \<Rightarrow> string \<Rightarrow> slope_function" where
  "solver_parseEquation evaluate eqStr =
     (let processed = processedEq eqStr
      in (\<lambda>x y. evaluate processed (x, y)))"

text \<open>
  \<open>parseEquation\<close> of the slope field component. The closure checks the two singularity
  guards, then calls the evaluator inside \<open>try\<close>; the \<open>catch\<close> returns 0.
\<close>

definition viz_parseEquation :: "evaluator \<Rightarrow> string \<Rightarrow> slope_function" where
  "viz_parseEquation evaluate eqStr =
     (let processed = processedEq eqStr
      in (\<lambda>x y.
        if \<bar>y\<bar> < lit (1 / 10 ^ 10) \<and> js_includes processed ''/y'' then Inr (Fin 0)
        else if \<bar>x\<bar> < lit (1 / 10 ^ 10) \<and> js_includes processed ''/x'' then Inr (Fin 0)
        else (case evaluate processed (x, y) of
                Inr result \<Rightarrow> Inr (if isFinite result then result else Fin 0)
              | Inl error \<Rightarrow> Inr (Fin 0))))"

section \<open>The Runge-Kutta step\<close>

text \<open>
  The four stages \<open>k1\<close> .. \<open>k4\<close> of one Runge-Kutta step, in the order the source
  evaluates them; the same four lines stand in \<open>rungeKutta4\<close> and in
  \<open>generateSolutionCurve\<close>. A call of \<open>f\<close> that throws ends the computation.
\<close>

definition rk4_stages ::
  "slope_function \<Rightarrow> number \<Rightarrow> number \<Rightarrow> number
     \<Rightarrow> js_exception + (number \<times> number \<times> number \<times> number)" where
  "rk4_stages f h x y =
     (case f x y of Inl e \<Rightarrow> Inl e | Inr v1 \<Rightarrow>
        let k1 = h * v1 in
        case f (x + h / Fin 2) (y + k1 / Fin 2) of Inl e \<Rightarrow> Inl e | Inr v2 \<Rightarrow>
        let k2 = h * v2 in
        case f (x + h / Fin 2) (y + k2 / Fin 2) of Inl e \<Rightarrow> Inl e | Inr v3 \<Rightarrow>
        let k3 = h * v3 in
        case f (x + h) (y + k3) of Inl e \<Rightarrow> Inl e | Inr v4 \<Rightarrow>
        let k4 = h * v4 in
        Inr (k1, k2, k3, k4))"

text \<open>The value assigned to \<open>y\<close> by one step, from the four stages.\<close>

definition rk4_y :: "number \<Rightarrow> number \<times> number \<times> number \<times> number \<Rightarrow> number" where
  "rk4_y y ks = (case ks of (k1, k2, k3, k4) \<Rightarrow> y + (k1 + Fin 2 * k2 + Fin 2 * k3 + k4) / Fin 6)"

section \<open>The solver component\<close>

text \<open>
  The \<open>while\<close> loop of \<open>rungeKutta4\<close> with its variables \<open>x\<close>, \<open>y\<close> and \<open>points\<close>. The
  loop has no bound on its iterations: the result is \<open>None\<close> when it does not return.
\<close>

partial_function (option) rungeKutta4_loop ::
  "slope_function \<Rightarrow> number \<Rightarrow> number \<Rightarrow> number \<Rightarrow> number
     \<Rightarrow> (number \<times> number) list \<Rightarrow> (js_exception + (number \<times> number) list) option" where
  "rungeKutta4_loop f h xEnd x y points =
     (if x < xEnd then
        (case rk4_stages f h x y of
           Inl e \<Rightarrow> Some (Inl e)
         | Inr (k1, k2, k3, k4) \<Rightarrow>
             (let y' = y + (k1 + Fin 2 * k2 + Fin 2 * k3 + k4) / Fin 6;
                  x' = x + h
              in rungeKutta4_loop f h xEnd x' y' (points @ [(x', y')])))
      else Some (Inr points))"

definition rungeKutta4 ::
  "slope_function \<Rightarrow> number \<Rightarrow> number \<Rightarrow> number \<Rightarrow> number
     \<Rightarrow> (js_exception + (number \<times> number) list) option" where
  "rungeKutta4 f x0 y0 h xEnd =
     (let points = [(x0, y0)]
      in rungeKutta4_loop f h xEnd x0 y0 points)"

text \<open>
  The texts of the step log are not ASCII: each is the list of the bytes of its UTF-8
  encoding.
\<close>

definition label_error :: string where
  "label_error =
     [CHR 0xE9, CHR 0x94, CHR 0x99, CHR 0xE8, CHR 0xAF, CHR 0xAF]"

definition text_solve_failed :: string where
  "text_solve_failed =
     [CHR 0xE6, CHR 0xB1, CHR 0x82, CHR 0xE8, CHR 0xA7, CHR 0xA3, CHR 0xE5, CHR 0xA4,
      CHR 0xB1, CHR 0xE8, CHR 0xB4, CHR 0xA5]"

definition text_unknown_error :: string where
  "text_unknown_error =
     [CHR 0xE6, CHR 0x9C, CHR 0xAA, CHR 0xE7, CHR 0x9F, CHR 0xA5, CHR 0xE9, CHR 0x94,
      CHR 0x99, CHR 0xE8, CHR 0xAF, CHR 0xAF]"

definition text_parse_equation :: string where
  "text_parse_equation =
     [CHR 0xE8, CHR 0xA7, CHR 0xA3, CHR 0xE6, CHR 0x9E, CHR 0x90, CHR 0xE5, CHR 0xBE,
      CHR 0xAE, CHR 0xE5, CHR 0x88, CHR 0x86, CHR 0xE6, CHR 0x96, CHR 0xB9, CHR 0xE7,
      CHR 0xA8, CHR 0x8B]"

definition text_original_equation :: string where
  "text_original_equation =
     [CHR 0xE5, CHR 0x8E, CHR 0x9F, CHR 0xE6, CHR 0x96, CHR 0xB9, CHR 0xE7, CHR 0xA8,
      CHR 0x8B, CHR '':'', CHR '' '']"

definition text_set_initial :: string where
  "text_set_initial =
     [CHR 0xE8, CHR 0xAE, CHR 0xBE, CHR 0xE7, CHR 0xBD, CHR 0xAE, CHR 0xE5, CHR 0x88,
      CHR 0x9D, CHR 0xE5, CHR 0xA7, CHR 0x8B, CHR 0xE6, CHR 0x9D, CHR 0xA1, CHR 0xE4,
      CHR 0xBB, CHR 0xB6]"

definition text_initial_condition :: string where
  "text_initial_condition =
     [CHR 0xE5, CHR 0x88, CHR 0x9D, CHR 0xE5, CHR 0xA7, CHR 0x8B, CHR 0xE6, CHR 0x9D,
      CHR 0xA1, CHR 0xE4, CHR 0xBB, CHR 0xB6, CHR '':'', CHR '' '', CHR ''y'', CHR ''('']"

definition text_use_rk4 :: string where
  "text_use_rk4 =
     [CHR 0xE4, CHR 0xBD, CHR 0xBF, CHR 0xE7, CHR 0x94, CHR 0xA8, CHR 0xE5, CHR 0x9B,
      CHR 0x9B, CHR 0xE9, CHR 0x98, CHR 0xB6, CHR ''R'', CHR ''u'', CHR ''n'', CHR ''g'',
      CHR ''e'', CHR ''-'', CHR ''K'', CHR ''u'', CHR ''t'', CHR ''t'', CHR ''a'',
      CHR 0xE6, CHR 0x95, CHR 0xB0, CHR 0xE5, CHR 0x80, CHR 0xBC, CHR 0xE6, CHR 0x96,
      CHR 0xB9, CHR 0xE6, CHR 0xB3, CHR 0x95, CHR 0xE6, CHR 0xB1, CHR 0x82, CHR 0xE8,
      CHR 0xA7, CHR 0xA3]"

definition text_step_size :: string where
  "text_step_size =
     [CHR 0xE6, CHR 0xAD, CHR 0xA5, CHR 0xE9, CHR 0x95, CHR 0xBF, CHR '':'', CHR '' '',
      CHR ''h'', CHR '' '', CHR ''='', CHR '' '']"

definition text_interval :: string where
  "text_interval =
     [CHR '','', CHR '' '', CHR 0xE6, CHR 0xB1, CHR 0x82, CHR 0xE8, CHR 0xA7, CHR 0xA3,
      CHR 0xE5, CHR 0x8C, CHR 0xBA, CHR 0xE9, CHR 0x97, CHR 0xB4, CHR '':'', CHR '' '',
      CHR ''['']"

definition text_done :: string where
  "text_done =
     [CHR 0xE6, CHR 0x95, CHR 0xB0, CHR 0xE5, CHR 0x80, CHR 0xBC, CHR 0xE8, CHR 0xA7,
      CHR 0xA3, CHR 0xE8, CHR 0xAE, CHR 0xA1, CHR 0xE7, CHR 0xAE, CHR 0x97, CHR 0xE5,
      CHR 0xAE, CHR 0x8C, CHR 0xE6, CHR 0x88, CHR 0x90]"

definition text_computed :: string where
  "text_computed =
     [CHR 0xE5, CHR 0x85, CHR 0xB1, CHR 0xE8, CHR 0xAE, CHR 0xA1, CHR 0xE7, CHR 0xAE,
      CHR 0x97, CHR 0xE4, CHR 0xBA, CHR 0x86, CHR '' '']"

definition text_data_points :: string where
  "text_data_points =
     [CHR '' '', CHR 0xE4, CHR 0xB8, CHR 0xAA, CHR 0xE6, CHR 0x95, CHR 0xB0, CHR 0xE6,
      CHR 0x8D, CHR 0xAE, CHR 0xE7, CHR 0x82, CHR 0xB9]"


text \<open>An entry of the step log; \<open>result\<close> is optional in the source.\<close>

record SolutionStep =
  step :: string
  description :: string
  result :: "string option"

text \<open>The reactive variables of the solver component.\<close>

record solver_state =
  equation :: string
  initialX :: number
  initialY :: number
  xEnd :: number
  stepSize :: number
  solution :: "(number \<times> number) list"
  solutionSteps :: "SolutionStep list"
  isLoading :: bool

definition initial_solver_state :: solver_state where
  "initial_solver_state =
     \<lparr>equation = ''dy/dx = x + y'',
      initialX = Fin 0,
      initialY = Fin 1,
      xEnd = Fin 2,
      stepSize = lit (1 / 10),
      solution = [],
      solutionSteps = [],
      isLoading = False\<rparr>"

text \<open>\<open>s.trim()\<close>; the string is falsy exactly when the result is empty.\<close>

definition js_trim :: "string \<Rightarrow> string" where
  "js_trim t = rev (dropWhile is_space (rev (dropWhile is_space t)))"

text \<open>\<open>error instanceof Error ? error.message : '...'\<close>.\<close>

definition error_message :: "js_exception \<Rightarrow> string" where
  "error_message error =
     (case error of JsError message \<Rightarrow> message | NonError \<Rightarrow> text_unknown_error)"

text \<open>
  \<open>solveEquation\<close>, from the state before the call to the state after it; \<open>None\<close>
  when the integration does not return. The conversion of a number to text in the
  template strings is the parameter \<open>toString\<close>. The \<open>catch\<close> block replaces the step
  log and assigns nothing else; the \<open>finally\<close> block resets \<open>isLoading\<close>.
\<close>

definition solveEquation ::
  "evaluator \<Rightarrow> (number \<Rightarrow> string) \<Rightarrow> solver_state \<Rightarrow> solver_state option" where
  "solveEquation evaluate toString s =
     (if js_trim (equation s) = [] then Some s
      else
        let s1 = s\<lparr>isLoading := True\<rparr>;
            s2 = s1\<lparr>solutionSteps := []\<rparr>;
            s3 = s2\<lparr>solutionSteps :=
              [\<lparr>step = ''1'', description = text_parse_equation,
                result = Some (text_original_equation @ equation s2)\<rparr>,
               \<lparr>step = ''2'', description = text_set_initial,
                result = Some (text_initial_condition @ toString (initialX s2) @ '') = ''
                  @ toString (initialY s2))\<rparr>,
               \<lparr>step = ''3'', description = text_use_rk4,
                result = Some (text_step_size @ toString (stepSize s2) @ text_interval
                  @ toString (initialX s2) @ '', '' @ toString (xEnd s2) @ '']'')\<rparr>]\<rparr>;
            f = solver_parseEquation evaluate (equation s3)
        in case rungeKutta4 f (initialX s3) (initialY s3) (stepSize s3) (xEnd s3) of
             None \<Rightarrow> None
           | Some (Inr points) \<Rightarrow>
               let s4 = s3\<lparr>solution := points\<rparr>;
                   s5 = s4\<lparr>solutionSteps := solutionSteps s4 @
                     [\<lparr>step = ''4'', description = text_done,
                       result = Some (text_computed @ toString (Fin (real (length points)))
                         @ text_data_points)\<rparr>]\<rparr>
               in Some (s5\<lparr>isLoading := False\<rparr>)
           | Some (Inl error) \<Rightarrow>
               let s4 = s3\<lparr>solutionSteps :=
                     [\<lparr>step = label_error, description = text_solve_failed,
                       result = Some (error_message error)\<rparr>]\<rparr>
               in Some (s4\<lparr>isLoading := False\<rparr>))"

section \<open>The slope field component: state and integration\<close>

text \<open>
  A solution curve of the list \<open>solutionCurves\<close>: its fields are \<open>id\<close>, \<open>points\<close> and
  \<open>color\<close> in the source.
\<close>

record curve =
  curve_id :: nat
  curve_points :: "(number \<times> number) list"
  curve_color :: string

text \<open>
  The reactive variables of the component that the modelled functions read or write,
  and the counter \<open>curveIdCounter\<close>. The two ranges are arrays of two numbers.
\<close>

record viz_state =
  viz_equation :: string
  xRange :: "number \<times> number"
  yRange :: "number \<times> number"
  gridDensity :: number
  solutionCurves :: "curve list"
  curveIdCounter :: nat

definition initial_viz_state :: viz_state where
  "initial_viz_state =
     \<lparr>viz_equation = ''dy/dx = x + y'',
      xRange = (Fin (- 4), Fin 4),
      yRange = (Fin (- 3), Fin 3),
      gridDensity = Fin 20,
      solutionCurves = [],
      curveIdCounter = 0\<rparr>"

definition maxSteps :: nat where
  "maxSteps = 200"

text \<open>
  The test at the head of the loop body:
  \<open>x < xRange[0] || x > xRange[1] || y < yRange[0] || y > yRange[1]\<close>.
\<close>

definition outside :: "viz_state \<Rightarrow> number \<times> number \<Rightarrow> bool" where
  "outside s p =
     (fst p < fst (xRange s) \<or> fst p > snd (xRange s) \<or>
      snd p < fst (yRange s) \<or> snd p > snd (yRange s))"

text \<open>A point lies within the rectangle \<open>[xMin, xMax] \<times> [yMin, yMax]\<close>.\<close>

definition in_rectangle :: "viz_state \<Rightarrow> number \<times> number \<Rightarrow> bool" where
  "in_rectangle s p =
     (fst (xRange s) \<le> fst p \<and> fst p \<le> snd (xRange s) \<and>
      fst (yRange s) \<le> snd p \<and> snd p \<le> snd (yRange s))"

text \<open>
  The \<open>for\<close> loop of \<open>generateSolutionCurve\<close>, with its counter \<open>i\<close> and the variables
  \<open>x\<close>, \<open>y\<close> and \<open>points\<close>. Each \<open>break\<close> returns the points pushed so far.
\<close>

function generateSolutionCurve_loop ::
  "viz_state \<Rightarrow> slope_function \<Rightarrow> number \<Rightarrow> nat \<Rightarrow> number \<Rightarrow> number
     \<Rightarrow> (number \<times> number) list \<Rightarrow> js_exception + (number \<times> number) list" where
  "generateSolutionCurve_loop s f h i x y points =
     (if i < maxSteps then
        (if outside s (x, y) then Inr points
         else
           (case rk4_stages f h x y of
              Inl e \<Rightarrow> Inl e
            | Inr (k1, k2, k3, k4) \<Rightarrow>
                if \<not> isFinite k1 \<or> \<not> isFinite k2 \<or> \<not> isFinite k3 \<or> \<not> isFinite k4
                then Inr points
                else
                  (let y' = y + (k1 + Fin 2 * k2 + Fin 2 * k3 + k4) / Fin 6;
                       x' = x + h
                   in if \<not> isFinite x' \<or> \<not> isFinite y' then Inr points
                      else generateSolutionCurve_loop s f h (i + 1) x' y'
                             (points @ [(x', y')]))))
      else Inr points)"
  by pat_completeness auto
termination
  by (relation "measure (\<lambda>(s, f, h, i, x, y, points). maxSteps - i)") auto

declare generateSolutionCurve_loop.simps [simp del]

definition generateSolutionCurve ::
  "viz_state \<Rightarrow> slope_function \<Rightarrow> number \<Rightarrow> number \<Rightarrow> number
     \<Rightarrow> js_exception + (number \<times> number) list" where
  "generateSolutionCurve s f x0 y0 direction =
     (let points = [(x0, y0)];
          h = lit (5 / 100) * direction
      in generateSolutionCurve_loop s f h 0 x0 y0 points)"



text \<open>
  The sampling loops of \<open>drawSlopeField\<close>. The drawing of each arrow is not modelled:
  an arrow is the triple \<open>(x, y, slope)\<close> its line is computed from. The inner loop runs
  over \<open>y\<close>; \<open>continue\<close> goes on with the next \<open>y\<close> without an arrow. Neither loop has a
  bound on its iterations: the result is \<open>None\<close> when one does not return.
\<close>

partial_function (option) slopeField_y_loop ::
  "slope_function \<Rightarrow> number \<Rightarrow> number \<Rightarrow> number \<Rightarrow> number
     \<Rightarrow> (number \<times> number \<times> number) list
     \<Rightarrow> (js_exception + (number \<times> number \<times> number) list) option" where
  "slopeField_y_loop f x yMax stepY y arrows =
     (if y \<le> yMax then
        (case f x y of
           Inl e \<Rightarrow> Some (Inl e)
         | Inr slope \<Rightarrow>
             if \<not> isFinite slope then slopeField_y_loop f x yMax stepY (y + stepY) arrows
             else slopeField_y_loop f x yMax stepY (y + stepY) (arrows @ [(x, y, slope)]))
      else Some (Inr arrows))"

partial_function (option) slopeField_x_loop ::
  "slope_function \<Rightarrow> viz_state \<Rightarrow> number \<Rightarrow> number \<Rightarrow> number
     \<Rightarrow> (number \<times> number \<times> number) list
     \<Rightarrow> (js_exception + (number \<times> number \<times> number) list) option" where
  "slopeField_x_loop f s stepX stepY x arrows =
     (if x \<le> snd (xRange s) then
        (case slopeField_y_loop f x (snd (yRange s)) stepY (fst (yRange s)) arrows of
           None \<Rightarrow> None
         | Some (Inl e) \<Rightarrow> Some (Inl e)
         | Some (Inr arrows') \<Rightarrow> slopeField_x_loop f s stepX stepY (x + stepX) arrows')
      else Some (Inr arrows))"

definition drawSlopeField ::
  "evaluator \<Rightarrow> viz_state
     \<Rightarrow> (js_exception + (number \<times> number \<times> number) list) option" where
  "drawSlopeField evaluate s =
     (let f = viz_parseEquation evaluate (viz_equation s);
          stepX = (snd (xRange s) - fst (xRange s)) / gridDensity s;
          stepY = (snd (yRange s) - fst (yRange s)) / gridDensity s
      in slopeField_x_loop f s stepX stepY (fst (xRange s)) [])"

text \<open>
  The values that the variable of a loop \<open>for (v = start; v <= vMax; v += inc)\<close> takes:
  \<open>visits vMax inc start ws\<close> holds when \<open>ws\<close> is the list of the values, in order, for
  which the body runs, the loop ending after the last of them.
\<close>

fun visits :: "number \<Rightarrow> number \<Rightarrow> number \<Rightarrow> number list \<Rightarrow> bool" where
  "visits vMax inc v [] = (\<not> v \<le> vMax)"
| "visits vMax inc v (w # ws) = (w = v \<and> v \<le> vMax \<and> visits vMax inc (v + inc) ws)"

text \<open>
  The full grid over the values \<open>xs\<close> and \<open>ys\<close>, column by column: one triple for every
  pair, with the slope \<open>g\<close> gives there.
\<close>

definition grid_arrows ::
  "(number \<Rightarrow> number \<Rightarrow> number) \<Rightarrow> number list \<Rightarrow> number list
     \<Rightarrow> (number \<times> number \<times> number) list" where
  "grid_arrows g xs ys = concat (map (\<lambda>u. map (\<lambda>v. (u, v, g u v)) ys) xs)"

text \<open>The number that the compiled function of the slope field component returns.\<close>

definition viz_slope :: "evaluator \<Rightarrow> string \<Rightarrow> number \<Rightarrow> number \<Rightarrow> number" where
  "viz_slope evaluate eqStr x y =
     (case viz_parseEquation evaluate eqStr x y of Inr slope \<Rightarrow> slope | Inl e \<Rightarrow> NaN)"


section \<open>Properties of the rounding\<close>

lemmas eval64 = round64_def normalise_def norm_dn.simps norm_up.simps rhe_def Let_def lit_def

lemma rhe_of_int: "rhe (of_int k) = k"
  by (simp add: rhe_def)

lemma rhe_floor_le: "\<lfloor>q\<rfloor> \<le> rhe q"
  by (simp add: rhe_def Let_def)

lemma rhe_le_floor: "rhe q \<le> \<lfloor>q\<rfloor> + 1"
  by (simp add: rhe_def Let_def)

lemma rhe_mono: "a \<le> b \<Longrightarrow> rhe a \<le> rhe b"
proof -
  assume ab: "a \<le> b"
  then have fl: "\<lfloor>a\<rfloor> \<le> \<lfloor>b\<rfloor>" by (rule floor_mono)
  show ?thesis
  proof (cases "\<lfloor>a\<rfloor> = \<lfloor>b\<rfloor>")
    case True
    with ab have "a - of_int \<lfloor>a\<rfloor> \<le> b - of_int \<lfloor>b\<rfloor>" by simp
    with True show ?thesis by (auto simp: rhe_def Let_def)
  next
    case False
    with fl have "\<lfloor>a\<rfloor> + 1 \<le> \<lfloor>b\<rfloor>" by simp
    with rhe_le_floor [of a] rhe_floor_le [of b] show ?thesis by linarith
  qed
qed

lemma rhe_ge_int: "of_int k \<le> q \<Longrightarrow> k \<le> rhe q"
  using rhe_mono [of "of_int k" q] by (simp add: rhe_of_int)

lemma rhe_le_int: "q \<le> of_int k \<Longrightarrow> rhe q \<le> k"
  using rhe_mono [of q "of_int k"] by (simp add: rhe_of_int)

lemma pw_suc: "(2::real) powi (e + 1) = 2 * 2 powi e"
  by (simp add: power_int_add)

lemma pw_pred: "2 * (2::real) powi (e - 1) = 2 powi e"
  using pw_suc [of "e - 1"] by simp

lemma pw_pos: "0 < (2::real) powi e"
  by simp

lemma pw_mono: "a \<le> b \<Longrightarrow> (2::real) powi a \<le> 2 powi b"
  by (rule power_int_increasing) simp_all

lemma pw_less: "a < b \<Longrightarrow> 2 * (2::real) powi a \<le> 2 powi b"
  using pw_mono [of "a + 1" b] by (simp add: pw_suc)

lemma norm_dn_spec:
  "0 < q \<Longrightarrow> q < 2 ^ 53 \<Longrightarrow> - 1074 \<le> e \<Longrightarrow> norm_dn q e = (q', e') \<Longrightarrow>
   q * 2 powi e = q' * 2 powi e' \<and> - 1074 \<le> e' \<and> e' \<le> e \<and> 0 < q' \<and> q' < 2 ^ 53 \<and>
   (- 1074 < e' \<longrightarrow> 2 ^ 52 \<le> q')"
proof (induction q e rule: norm_dn.induct)
  case (1 q e)
  show ?case
  proof (cases "2 ^ 52 \<le> q \<or> e \<le> - 1074")
    case True
    with "1.prems" show ?thesis
      by (subst (asm) norm_dn.simps) auto
  next
    case False
    with "1.prems" have rec: "norm_dn (2 * q) (e - 1) = (q', e')"
      by (subst (asm) norm_dn.simps) simp
    from False "1.prems" have pre: "0 < 2 * q" "2 * q < 2 ^ 53" "- 1074 \<le> e - 1"
      by simp_all
    from "1.IH" [OF False pre rec] have
      ih: "2 * q * 2 powi (e - 1) = q' * 2 powi e'" "- 1074 \<le> e'" "e' \<le> e - 1" "0 < q'"
        "q' < 2 ^ 53" "- 1074 < e' \<longrightarrow> 2 ^ 52 \<le> q'"
      by auto
    have "q * 2 powi e = q * (2 * 2 powi (e - 1))"
      by (simp only: pw_pred)
    also have "\<dots> = 2 * q * 2 powi (e - 1)" by simp
    finally have "q * 2 powi e = q' * 2 powi e'"
      using ih(1) by simp
    with ih show ?thesis by simp
  qed
qed

lemma norm_up_spec:
  "2 ^ 52 \<le> q \<Longrightarrow> e \<le> 972 \<Longrightarrow> norm_up q e = (q', e') \<Longrightarrow>
   q * 2 powi e = q' * 2 powi e' \<and> e \<le> e' \<and> e' \<le> 972 \<and> 2 ^ 52 \<le> q' \<and>
   (e' \<le> 971 \<longrightarrow> q' < 2 ^ 53)"
proof (induction q e rule: norm_up.induct)
  case (1 q e)
  show ?case
  proof (cases "q < 2 ^ 53 \<or> 971 < e")
    case True
    with "1.prems" show ?thesis
      by (subst (asm) norm_up.simps) auto
  next
    case False
    with "1.prems" have rec: "norm_up (q / 2) (e + 1) = (q', e')"
      by (subst (asm) norm_up.simps) simp
    from False "1.prems" have pre: "2 ^ 52 \<le> q / 2" "e + 1 \<le> 972"
      by simp_all
    from "1.IH" [OF False pre rec] have
      ih: "q / 2 * 2 powi (e + 1) = q' * 2 powi e'" "e + 1 \<le> e'" "e' \<le> 972" "2 ^ 52 \<le> q'"
        "e' \<le> 971 \<longrightarrow> q' < 2 ^ 53"
      by auto
    from ih(1) have "q * 2 powi e = q' * 2 powi e'"
      by (simp add: pw_suc)
    with ih show ?thesis by simp
  qed
qed

lemma normalise_spec:
  assumes "0 < a" "normalise a = (q, e)"
  shows "a = q * 2 powi e" "- 1074 \<le> e" "e \<le> 972" "0 < q"
    "e \<le> 971 \<Longrightarrow> q < 2 ^ 53" "- 1074 < e \<Longrightarrow> 2 ^ 52 \<le> q"
proof -
  have "a = q * 2 powi e \<and> - 1074 \<le> e \<and> e \<le> 972 \<and> 0 < q \<and>
    (e \<le> 971 \<longrightarrow> q < 2 ^ 53) \<and> (- 1074 < e \<longrightarrow> 2 ^ 52 \<le> q)"
  proof (cases "2 ^ 52 \<le> a")
    case True
    with assms(2) have "norm_up a 0 = (q, e)" by (simp add: normalise_def)
    from norm_up_spec [OF True _ this] show ?thesis by auto
  next
    case False
    with assms(2) have "norm_dn a 0 = (q, e)" by (simp add: normalise_def)
    from norm_dn_spec [OF assms(1) _ _ this] False show ?thesis by auto
  qed
  then show "a = q * 2 powi e" "- 1074 \<le> e" "e \<le> 972" "0 < q"
    "e \<le> 971 \<Longrightarrow> q < 2 ^ 53" "- 1074 < e \<Longrightarrow> 2 ^ 52 \<le> q"
    by simp_all
qed


lemma normalise_unique:
  assumes "0 < q" "a = q * 2 powi e" "- 1074 \<le> e" "e \<le> 971" "q < 2 ^ 53"
    "- 1074 < e \<Longrightarrow> 2 ^ 52 \<le> q"
  shows "normalise a = (q, e)"
proof -
  from assms(1,2) have a: "0 < a" by simp
  obtain q' e' where n: "normalise a = (q', e')" by (cases "normalise a")
  note sp = normalise_spec [OF a n]
  have "e' = e"
  proof (rule ccontr)
    assume ne: "e' \<noteq> e"
    show False
    proof (cases "e' < e")
      case True
      with assms(3) sp(2) have "2 ^ 52 \<le> q" by (intro assms(6)) simp
      then have "2 ^ 52 * 2 powi e \<le> a" by (simp add: assms(2))
      moreover from True have "2 * (2::real) powi e' \<le> 2 powi e" by (rule pw_less)
      then have "2 ^ 53 * (2::real) powi e' \<le> 2 ^ 52 * 2 powi e" by simp
      moreover from True assms(4) have "q' < 2 ^ 53" by (intro sp(5)) simp
      then have "a < 2 ^ 53 * 2 powi e'" by (simp add: sp(1))
      ultimately show False by linarith
    next
      case False
      with ne have lt: "e < e'" by simp
      with assms(3) have "2 ^ 52 \<le> q'" by (intro sp(6)) simp
      then have "2 ^ 52 * 2 powi e' \<le> a" by (simp add: sp(1))
      moreover from lt have "2 * (2::real) powi e \<le> 2 powi e'" by (rule pw_less)
      then have "2 ^ 53 * (2::real) powi e \<le> 2 ^ 52 * 2 powi e'" by simp
      moreover from assms(5) have "a < 2 ^ 53 * 2 powi e" by (simp add: assms(2))
      ultimately show False by linarith
    qed
  qed
  moreover from this sp(1) assms(2) have "q' = q" by simp
  ultimately show ?thesis using n by simp
qed

lemma normalise_exp_mono:
  assumes "0 < a" "a \<le> b" "normalise a = (qa, ea)" "normalise b = (qb, eb)"
  shows "ea \<le> eb"
proof (rule ccontr)
  assume "\<not> ea \<le> eb"
  then have lt: "eb < ea" by simp
  from assms(1,2) have b: "0 < b" by simp
  note sa = normalise_spec [OF assms(1,3)] and sb = normalise_spec [OF b assms(4)]
  from lt sb(2) have "2 ^ 52 \<le> qa" by (intro sa(6)) simp
  then have "2 ^ 52 * 2 powi ea \<le> a" by (simp add: sa(1))
  moreover from lt have "2 * (2::real) powi eb \<le> 2 powi ea" by (rule pw_less)
  then have "2 ^ 53 * (2::real) powi eb \<le> 2 ^ 52 * 2 powi ea" by simp
  moreover from lt sa(3) have "qb < 2 ^ 53" by (intro sb(5)) simp
  then have "b < 2 ^ 53 * 2 powi eb" by (simp add: sb(1))
  ultimately show False using assms(2) by linarith
qed

lemma le_number_refl: "a \<noteq> NaN \<Longrightarrow> (a::number) \<le> a"
  by (cases a) simp_all

lemma le_number_trans: "(a::number) \<le> b \<Longrightarrow> b \<le> c \<Longrightarrow> a \<le> c"
  by (cases a; cases b; cases c) simp_all

lemma round64_not_NaN: "round64 x \<noteq> NaN"
  by (auto simp: round64_def Let_def split: prod.splits)

lemma round64_pos:
  assumes "0 < x" "normalise x = (q, e)"
  shows "round64 x =
    (if 971 < e \<or> (e = 971 \<and> 2 ^ 53 \<le> rhe q) then PInf else Fin (of_int (rhe q) * 2 powi e))"
  using assms by (simp add: round64_def Let_def)

lemma round64_neg: "round64 (- x) = - round64 x"
  by (auto simp: round64_def Let_def sgn_if split: prod.splits)

lemma round64_nonneg: "0 \<le> x \<Longrightarrow> Fin 0 \<le> round64 x"
proof (cases "x = 0")
  case True
  then show ?thesis by (simp add: round64_def)
next
  case False
  assume "0 \<le> x"
  with False have x: "0 < x" by simp
  obtain q e where n: "normalise x = (q, e)" by (cases "normalise x")
  from normalise_spec(4) [OF x n] have "0 \<le> rhe q"
    using rhe_ge_int [of 0 q] by simp
  then show ?thesis
    by (simp add: round64_pos [OF x n])
qed

lemma round64_nonpos: "x \<le> 0 \<Longrightarrow> round64 x \<le> Fin 0"
proof -
  assume "x \<le> 0"
  then have "Fin 0 \<le> round64 (- x)" by (intro round64_nonneg) simp
  then show ?thesis
    by (cases "round64 x") (simp_all add: round64_neg)
qed

lemma round64_mono_pos:
  assumes a: "0 < a" and ab: "a \<le> b"
  shows "round64 a \<le> round64 b"
proof -
  from a ab have b: "0 < b" by simp
  obtain qa ea where na: "normalise a = (qa, ea)" by (cases "normalise a")
  obtain qb eb where nb: "normalise b = (qb, eb)" by (cases "normalise b")
  note sa = normalise_spec [OF a na] and sb = normalise_spec [OF b nb]
  have e: "ea \<le> eb" by (rule normalise_exp_mono [OF a ab na nb])
  let ?oa = "971 < ea \<or> (ea = 971 \<and> 2 ^ 53 \<le> rhe qa)"
  let ?ob = "971 < eb \<or> (eb = 971 \<and> 2 ^ 53 \<le> rhe qb)"
  show ?thesis
  proof (cases ?ob)
    case True
    then have "round64 b = PInf" by (simp add: round64_pos [OF b nb])
    moreover have "round64 a \<noteq> NaN" by (rule round64_not_NaN)
    ultimately show ?thesis by (cases "round64 a") simp_all
  next
    case nob: False
    have same: "qa \<le> qb" if "ea = eb"
    proof -
      from ab sa(1) sb(1) that have "qa * 2 powi eb \<le> qb * 2 powi eb" by simp
      then show ?thesis by simp
    qed
    have noa: "\<not> ?oa"
    proof
      assume ?oa
      then consider "971 < ea" | "ea = 971" "2 ^ 53 \<le> rhe qa" by blast
      then show False
      proof cases
        case 1
        with e nob show False by simp
      next
        case 2
        with e nob have "eb = 971" by auto
        with 2 same have "qa \<le> qb" by simp
        then have "rhe qa \<le> rhe qb" by (rule rhe_mono)
        with 2 nob \<open>eb = 971\<close> show False by simp
      qed
    qed
    have "of_int (rhe qa) * 2 powi ea \<le> of_int (rhe qb) * (2::real) powi eb"
    proof (cases "ea = eb")
      case True
      with same have "rhe qa \<le> rhe qb" by (intro rhe_mono) simp
      with True show ?thesis by simp
    next
      case False
      with e have lt: "ea < eb" by simp
      with noa have "qa < 2 ^ 53" by (intro sa(5)) auto
      then have "rhe qa \<le> 2 ^ 53" by (intro rhe_le_int) simp
      then have "(of_int (rhe qa) :: real) \<le> 2 ^ 53" by (metis of_int_le_iff of_int_numeral of_int_power)
      then have 1: "of_int (rhe qa) * 2 powi ea \<le> 2 ^ 53 * (2::real) powi ea"
        by simp
      from lt have "2 * (2::real) powi ea \<le> 2 powi eb" by (rule pw_less)
      then have 2: "2 ^ 53 * (2::real) powi ea \<le> 2 ^ 52 * 2 powi eb" by simp
      from lt sa(2) have "2 ^ 52 \<le> qb" by (intro sb(6)) simp
      then have "2 ^ 52 \<le> rhe qb" by (intro rhe_ge_int) simp
      then have "(2 ^ 52 :: real) \<le> of_int (rhe qb)" by (metis of_int_le_iff of_int_numeral of_int_power)
      then have 3: "2 ^ 52 * (2::real) powi eb \<le> of_int (rhe qb) * 2 powi eb"
        by simp
      from 1 2 3 show ?thesis by linarith
    qed
    with noa nob show ?thesis
      by (simp add: round64_pos [OF a na] round64_pos [OF b nb])
  qed
qed

lemma round64_mono: "a \<le> b \<Longrightarrow> round64 a \<le> round64 b"
proof -
  assume ab: "a \<le> b"
  consider "0 < a" | "b < 0" | "a \<le> 0" "0 \<le> b" by linarith
  then show ?thesis
  proof cases
    case 1
    then show ?thesis using ab by (rule round64_mono_pos)
  next
    case 2
    with ab have "0 < - b" "- b \<le> - a" by simp_all
    then have "round64 (- b) \<le> round64 (- a)" by (rule round64_mono_pos)
    then show ?thesis
      by (cases "round64 a"; cases "round64 b") (simp_all add: round64_neg)
  next
    case 3
    then have "round64 a \<le> Fin 0" "Fin 0 \<le> round64 b"
      by (simp_all add: round64_nonpos round64_nonneg)
    then show ?thesis by (rule le_number_trans)
  qed
qed


lemma of_int_pow2_le: "(2 ^ n :: int) \<le> k \<longleftrightarrow> (2 ^ n :: real) \<le> of_int k"
  by (metis of_int_le_iff of_int_numeral of_int_power)

lemma of_int_le_pow2: "k \<le> (2 ^ n :: int) \<longleftrightarrow> (of_int k :: real) \<le> 2 ^ n"
  by (metis of_int_le_iff of_int_numeral of_int_power)

lemma round64_idem_pos:
  assumes x: "0 < x" and r: "round64 x = Fin r"
  shows "round64 r = Fin r"
proof -
  obtain q e where n: "normalise x = (q, e)" by (cases "normalise x")
  note sp = normalise_spec [OF x n]
  let ?m = "rhe q"
  from r have no: "\<not> (971 < e \<or> (e = 971 \<and> 2 ^ 53 \<le> ?m))" and rv: "r = of_int ?m * 2 powi e"
    by (simp_all add: round64_pos [OF x n] split: if_splits)
  from no have e: "e \<le> 971" by simp
  from sp(4) have m0: "0 \<le> ?m" using rhe_ge_int [of 0 q] by simp
  from sp(5) [OF e] have m53: "?m \<le> 2 ^ 53" by (intro rhe_le_int) simp
  show ?thesis
  proof (cases "?m = 0")
    case True
    with rv show ?thesis by (simp add: round64_def)
  next
    case False
    with m0 have mpos: "0 < ?m" by simp
    then have rpos: "0 < r" by (simp add: rv)
    show ?thesis
    proof (cases "?m = 2 ^ 53")
      case True
      with no have e': "e + 1 \<le> 971" by auto
      from True have rv': "r = 2 ^ 52 * 2 powi (e + 1)"
        by (simp add: rv pw_suc)
      have nr: "normalise r = (2 ^ 52, e + 1)"
        using sp(2) e' by (intro normalise_unique rv') simp_all
      have m: "rhe 4503599627370496 = 4503599627370496"
        using rhe_of_int [of 4503599627370496] by simp
      have "round64 r = Fin (of_int (rhe (2 ^ 52)) * 2 powi (e + 1))"
        using e' by (simp add: round64_pos [OF rpos nr] m)
      also have "\<dots> = Fin r"
        by (simp add: m rv')
      finally show ?thesis .
    next
      case ne: False
      with m53 have lt: "?m < 2 ^ 53" by simp
      then have lt': "(of_int ?m :: real) < 2 ^ 53"
        by (metis of_int_less_iff of_int_numeral of_int_power)
      have lo: "2 ^ 52 \<le> (of_int ?m :: real)" if "- 1074 < e"
      proof -
        from sp(6) [OF that] have "2 ^ 52 \<le> ?m" by (intro rhe_ge_int) simp
        then show ?thesis by (simp add: of_int_pow2_le)
      qed
      have nr: "normalise r = (of_int ?m, e)"
        using mpos sp(2) e lt' lo by (intro normalise_unique rv) simp_all
      have "round64 r = Fin (of_int (rhe (of_int ?m)) * 2 powi e)"
        using lt e by (simp add: round64_pos [OF rpos nr] rhe_of_int)
      also have "\<dots> = Fin r"
        by (simp add: rhe_of_int rv)
      finally show ?thesis .
    qed
  qed
qed

lemma round64_idem:
  assumes "round64 x = Fin r"
  shows "is_double r"
proof -
  consider "x = 0" | "0 < x" | "x < 0" by linarith
  then have "round64 r = Fin r"
  proof cases
    case 1
    with assms show ?thesis by (simp add: round64_def)
  next
    case 2
    then show ?thesis using assms by (rule round64_idem_pos)
  next
    case 3
    then have "0 < - x" by simp
    moreover from assms have "round64 (- x) = Fin (- r)" by (simp add: round64_neg)
    ultimately have "round64 (- r) = Fin (- r)" by (rule round64_idem_pos)
    then show ?thesis
      by (cases "round64 r") (simp_all add: round64_neg)
  qed
  then show ?thesis by (simp add: is_double_def)
qed

lemma double_multiple_pos:
  assumes r: "0 < r" and d: "round64 r = Fin r"
  shows "\<exists>k::int. r = of_int k * 2 powi (- 1074)"
proof -
  obtain q e where n: "normalise r = (q, e)" by (cases "normalise r")
  note sp = normalise_spec [OF r n]
  from d have rv: "r = of_int (rhe q) * 2 powi e"
    by (simp add: round64_pos [OF r n] split: if_splits)
  from sp(2) have "(2::real) powi e = 2 powi (e + 1074) * 2 powi (- 1074)"
    using power_int_add [of "2::real" "e + 1074" "- 1074"] by simp
  also from sp(2) have "(2::real) powi (e + 1074) = of_int (2 ^ nat (e + 1074))"
    by (simp add: power_int_nonneg_exp)
  finally have "r = of_int (rhe q * 2 ^ nat (e + 1074)) * 2 powi (- 1074)"
    by (simp add: rv)
  then show ?thesis ..
qed

lemma double_multiple:
  assumes "is_double r"
  shows "\<exists>k::int. r = of_int k * 2 powi (- 1074)"
proof -
  from assms have d: "round64 r = Fin r" by (simp add: is_double_def)
  consider "r = 0" | "0 < r" | "r < 0" by linarith
  then show ?thesis
  proof cases
    case 1
    then have "r = of_int 0 * 2 powi (- 1074)" by simp
    then show ?thesis ..
  next
    case 2
    then show ?thesis using d by (rule double_multiple_pos)
  next
    case 3
    then have "0 < - r" by simp
    moreover from d have "round64 (- r) = Fin (- r)" by (simp add: round64_neg)
    ultimately obtain k :: int where "- r = of_int k * 2 powi (- 1074)"
      using double_multiple_pos by blast
    then have "r = of_int (- k) * 2 powi (- 1074)" by simp
    then show ?thesis ..
  qed
qed

lemma double_gap:
  assumes "is_double a" "is_double b" "a < b"
  shows "2 powi (- 1074) \<le> b - a"
proof -
  from double_multiple [OF assms(1)] obtain k :: int where a: "a = of_int k * 2 powi (- 1074)" ..
  from double_multiple [OF assms(2)] obtain l :: int where b: "b = of_int l * 2 powi (- 1074)" ..
  from assms(3) have "of_int k * (2::real) powi (- 1074) < of_int l * 2 powi (- 1074)"
    by (simp only: a b)
  then have "k < l" by simp
  then have "(1::real) \<le> of_int (l - k)" by simp
  then have "1 * (2::real) powi (- 1074) \<le> of_int (l - k) * 2 powi (- 1074)"
    by (intro mult_right_mono) simp_all
  then show ?thesis by (simp add: a b algebra_simps)
qed

lemma add_nonneg_ge:
  assumes "is_double x" "0 \<le> h"
  shows "Fin x \<le> Fin x + Fin h"
proof -
  from assms(2) have "round64 x \<le> round64 (x + h)" by (intro round64_mono) simp
  with assms(1) show ?thesis by (simp add: is_double_def)
qed


lemma add_is_double: "Fin a + Fin b = Fin r \<Longrightarrow> is_double r"
  by (simp add: round64_idem)

lemma add_mono_left: "a \<le> b \<Longrightarrow> Fin a + Fin h \<le> Fin b + Fin h"
  by (simp add: round64_mono)

section \<open>Properties of the compilers\<close>

lemma processedEq_yx: "processedEq ''dy/dx = y/x'' = ''y/x''"
  by (simp add: processedEq_def replace_caret_def match_dydx_def is_space_def)

lemma processedEq_x_plus: "processedEq ''dy/dx = x +'' = ''x +''"
  by (simp add: processedEq_def replace_caret_def match_dydx_def is_space_def)

lemma viz_parseEquation_finite:
  "\<exists>v. viz_parseEquation evaluate eqStr x y = Inr (Fin v)"
proof (cases "evaluate (processedEq eqStr) (x, y)")
  case (Inl e)
  then show ?thesis by (simp add: viz_parseEquation_def Let_def)
next
  case (Inr r)
  then show ?thesis by (cases r) (simp_all add: viz_parseEquation_def Let_def)
qed

lemma viz_parseEquation_guard_x:
  "js_includes (processedEq eqStr) ''/x'' \<Longrightarrow> \<bar>x\<bar> < lit (1 / 10 ^ 10)
   \<Longrightarrow> viz_parseEquation evaluate eqStr x y = Inr (Fin 0)"
  by (simp add: viz_parseEquation_def Let_def)

lemma viz_parseEquation_guard_y:
  "js_includes (processedEq eqStr) ''/y'' \<Longrightarrow> \<bar>y\<bar> < lit (1 / 10 ^ 10)
   \<Longrightarrow> viz_parseEquation evaluate eqStr x y = Inr (Fin 0)"
  by (simp add: viz_parseEquation_def Let_def)

text \<open>
  C1 (as amended). The compiled function of the slope field component never throws and
  returns a finite number; where the evaluator throws, and where it returns a number
  that is not finite, the compiled function returns 0. The compiled function of the
  solver component is not covered: it has no \<open>try\<close> and no finiteness test.
\<close>

theorem viz_parseEquation_never_raises:
  "(\<exists>v. viz_parseEquation evaluate eqStr x y = Inr (Fin v)) \<and>
   ((\<exists>e. evaluate (processedEq eqStr) (x, y) = Inl e) \<longrightarrow>
      viz_parseEquation evaluate eqStr x y = Inr (Fin 0)) \<and>
   ((\<exists>r. evaluate (processedEq eqStr) (x, y) = Inr r \<and> \<not> isFinite r) \<longrightarrow>
      viz_parseEquation evaluate eqStr x y = Inr (Fin 0))"
proof (intro conjI impI)
  show "\<exists>v. viz_parseEquation evaluate eqStr x y = Inr (Fin v)"
    by (rule viz_parseEquation_finite)
next
  assume "\<exists>e. evaluate (processedEq eqStr) (x, y) = Inl e"
  then show "viz_parseEquation evaluate eqStr x y = Inr (Fin 0)"
    by (auto simp: viz_parseEquation_def Let_def)
next
  assume "\<exists>r. evaluate (processedEq eqStr) (x, y) = Inr r \<and> \<not> isFinite r"
  then show "viz_parseEquation evaluate eqStr x y = Inr (Fin 0)"
    by (auto simp: viz_parseEquation_def Let_def)
qed

text \<open>
  Witness for C1: the malformed equation \<open>dy/dx = x +\<close>, on which the evaluator throws,
  and an evaluator that returns \<open>NaN\<close>.
\<close>

theorem viz_parseEquation_never_raises_witness:
  "sample_evaluate (processedEq ''dy/dx = x +'') (Fin 0, Fin 1)
     = Inl (JsError ''Unexpected end of expression'') \<and>
   viz_parseEquation sample_evaluate ''dy/dx = x +'' (Fin 0) (Fin 1) = Inr (Fin 0) \<and>
   \<not> isFinite NaN \<and>
   viz_parseEquation (\<lambda>expr scope. Inr NaN) ''dy/dx = x +'' (Fin 0) (Fin 1) = Inr (Fin 0)"
proof -
  have a: "sample_evaluate (processedEq ''dy/dx = x +'') (Fin 0, Fin 1)
             = Inl (JsError ''Unexpected end of expression'')"
    by (simp add: processedEq_x_plus sample_evaluate_def)
  have b: "viz_parseEquation sample_evaluate ''dy/dx = x +'' (Fin 0) (Fin 1) = Inr (Fin 0)"
    using viz_parseEquation_never_raises
      [of sample_evaluate "''dy/dx = x +''" "Fin 0" "Fin 1"] a
    by blast
  have c: "viz_parseEquation (\<lambda>expr scope. Inr NaN) ''dy/dx = x +'' (Fin 0) (Fin 1)
             = Inr (Fin 0)"
    using viz_parseEquation_never_raises
      [of "\<lambda>expr scope. Inr NaN" "''dy/dx = x +''" "Fin 0" "Fin 1"]
    by simp
  from a b c show ?thesis by simp
qed

text \<open>
  Counterexample to C1 as stated: the compiled function of the solver component throws
  on the malformed equation \<open>dy/dx = x +\<close>.
\<close>

theorem solver_parseEquation_raises:
  "solver_parseEquation sample_evaluate ''dy/dx = x +'' (Fin 0) (Fin 1)
     = Inl (JsError ''Unexpected end of expression'')"
  by (simp add: solver_parseEquation_def processedEq_x_plus sample_evaluate_def)

text \<open>
  C3 (as amended). In the slope field component, for every equation whose processed
  text contains \<open>/x\<close> (resp. \<open>/y\<close>) and every point with \<open>|x| < 1e-10\<close> (resp.
  \<open>|y| < 1e-10\<close>) the compiled function returns 0 whatever the evaluator is, so without
  calling it; in particular for \<open>dy/dx = y/x\<close>. The compiled function of the solver
  component has no such guard.
\<close>

theorem viz_parseEquation_singularity_guard:
  "(js_includes (processedEq eqStr) ''/x'' \<and> \<bar>x\<bar> < lit (1 / 10 ^ 10) \<longrightarrow>
      viz_parseEquation evaluate eqStr x y = Inr (Fin 0)) \<and>
   (js_includes (processedEq eqStr) ''/y'' \<and> \<bar>y\<bar> < lit (1 / 10 ^ 10) \<longrightarrow>
      viz_parseEquation evaluate eqStr x y = Inr (Fin 0)) \<and>
   (\<bar>x\<bar> < lit (1 / 10 ^ 10) \<longrightarrow>
      viz_parseEquation evaluate ''dy/dx = y/x'' x y = Inr (Fin 0))"
proof (intro conjI impI)
  assume "js_includes (processedEq eqStr) ''/x'' \<and> \<bar>x\<bar> < lit (1 / 10 ^ 10)"
  then show "viz_parseEquation evaluate eqStr x y = Inr (Fin 0)"
    by (simp add: viz_parseEquation_guard_x)
next
  assume "js_includes (processedEq eqStr) ''/y'' \<and> \<bar>y\<bar> < lit (1 / 10 ^ 10)"
  then show "viz_parseEquation evaluate eqStr x y = Inr (Fin 0)"
    by (simp add: viz_parseEquation_guard_y)
next
  assume "\<bar>x\<bar> < lit (1 / 10 ^ 10)"
  moreover have "js_includes (processedEq ''dy/dx = y/x'') ''/x''"
    by (simp add: processedEq_yx)
  ultimately show "viz_parseEquation evaluate ''dy/dx = y/x'' x y = Inr (Fin 0)"
    by (rule viz_parseEquation_guard_x [rotated])
qed

text \<open>
  Witness for C3: \<open>dy/dx = y/x\<close> at \<open>(0, 1)\<close> and \<open>dy/dx = -x/y\<close> at \<open>(1, 0)\<close>, with an
  evaluator that would return \<open>Infinity\<close> if it were called.
\<close>

theorem viz_parseEquation_singularity_guard_witness:
  "js_includes (processedEq ''dy/dx = y/x'') ''/x'' \<and> \<bar>Fin 0\<bar> < lit (1 / 10 ^ 10) \<and>
   viz_parseEquation (\<lambda>expr scope. Inr PInf) ''dy/dx = y/x'' (Fin 0) (Fin 1) = Inr (Fin 0) \<and>
   js_includes (processedEq ''dy/dx = -x/y'') ''/y'' \<and>
   viz_parseEquation (\<lambda>expr scope. Inr PInf) ''dy/dx = -x/y'' (Fin 1) (Fin 0) = Inr (Fin 0)"
proof -
  have a: "js_includes (processedEq ''dy/dx = y/x'') ''/x''"
    by (simp add: processedEq_yx)
  have b: "\<bar>Fin 0\<bar> < lit (1 / 10 ^ 10)"
    by (simp add: eval64)
  have c: "js_includes (processedEq ''dy/dx = -x/y'') ''/y''"
    by (simp add: processedEq_def replace_caret_def match_dydx_def is_space_def)
  have d: "viz_parseEquation (\<lambda>expr scope. Inr PInf) ''dy/dx = y/x'' (Fin 0) (Fin 1)
             = Inr (Fin 0)"
    using viz_parseEquation_singularity_guard
      [of "''dy/dx = y/x''" "Fin 0" "\<lambda>expr scope. Inr PInf" "Fin 1"] a b
    by blast
  have e: "viz_parseEquation (\<lambda>expr scope. Inr PInf) ''dy/dx = -x/y'' (Fin 1) (Fin 0)
             = Inr (Fin 0)"
    using viz_parseEquation_singularity_guard
      [of "''dy/dx = -x/y''" "Fin 1" "\<lambda>expr scope. Inr PInf" "Fin 0"] b c
    by blast
  from a b c d e show ?thesis by simp
qed

text \<open>
  Counterexample to C3 as stated: for \<open>dy/dx = y/x\<close> at \<open>(0, 1)\<close> the compiled function
  of the solver component returns \<open>Infinity\<close>, the quotient the evaluator computes.
\<close>

theorem solver_parseEquation_no_guard:
  "solver_parseEquation sample_evaluate ''dy/dx = y/x'' (Fin 0) (Fin 1) = Inr PInf"
  by (simp add: solver_parseEquation_def processedEq_yx sample_evaluate_def)

section \<open>Properties of the integration in the rectangle\<close>

lemma isFinite_plus: "isFinite (a + b) \<Longrightarrow> isFinite a \<and> isFinite b"
  by (cases a; cases b) simp_all

lemma not_less_number: "a \<noteq> NaN \<Longrightarrow> b \<noteq> NaN \<Longrightarrow> \<not> a < b \<Longrightarrow> b \<le> a"
  by (cases a; cases b) simp_all

lemma not_outside_in_rectangle:
  assumes "fst (xRange s) \<noteq> NaN" "snd (xRange s) \<noteq> NaN"
    "fst (yRange s) \<noteq> NaN" "snd (yRange s) \<noteq> NaN"
    "isFinite x" "isFinite y" "\<not> outside s (x, y)"
  shows "in_rectangle s (x, y)"
proof -
  from assms(5,6) have "x \<noteq> NaN" "y \<noteq> NaN" by auto
  with assms show ?thesis
    by (simp add: outside_def in_rectangle_def not_less_number)
qed

lemma rk4_stages_raise: "rk4_stages f h x y = Inl e \<Longrightarrow> \<exists>a b. f a b = Inl e"
  by (auto simp: rk4_stages_def Let_def split: sum.splits)

lemma gsc_loop_done:
  "\<not> i < maxSteps \<Longrightarrow> generateSolutionCurve_loop s f h i x y points = Inr points"
  by (subst generateSolutionCurve_loop.simps) simp

lemma gsc_loop_unfold:
  obtains
    (stop) "generateSolutionCurve_loop s f h i x y points = Inr points"
  | (raise) e where "rk4_stages f h x y = Inl e"
      "generateSolutionCurve_loop s f h i x y points = Inl e"
  | (step) ks where "i < maxSteps" "\<not> outside s (x, y)" "rk4_stages f h x y = Inr ks"
      "isFinite (x + h)" "isFinite (rk4_y y ks)"
      "generateSolutionCurve_loop s f h i x y points =
         generateSolutionCurve_loop s f h (i + 1) (x + h) (rk4_y y ks)
           (points @ [(x + h, rk4_y y ks)])"
proof -
  note eq = generateSolutionCurve_loop.simps [of s f h i x y points]
  show thesis
  proof (cases "i < maxSteps \<and> \<not> outside s (x, y)")
    case False
    with eq have "generateSolutionCurve_loop s f h i x y points = Inr points"
      by auto
    then show thesis by (rule stop)
  next
    case True
    show thesis
    proof (cases "rk4_stages f h x y")
      case (Inl e)
      with eq True have "generateSolutionCurve_loop s f h i x y points = Inl e"
        by simp
      with Inl show thesis by (rule raise)
    next
      case (Inr ks)
      obtain k1 k2 k3 k4 where ks: "ks = (k1, k2, k3, k4)"
        by (cases ks) auto
      show thesis
      proof (cases "isFinite k1 \<and> isFinite k2 \<and> isFinite k3 \<and> isFinite k4 \<and>
                    isFinite (x + h) \<and> isFinite (rk4_y y ks)")
        case False
        with eq True Inr ks
        have "generateSolutionCurve_loop s f h i x y points = Inr points"
          by (auto simp: Let_def rk4_y_def)
        then show thesis by (rule stop)
      next
        case fin: True
        with eq True Inr ks
        have "generateSolutionCurve_loop s f h i x y points =
                generateSolutionCurve_loop s f h (i + 1) (x + h) (rk4_y y ks)
                  (points @ [(x + h, rk4_y y ks)])"
          by (simp add: Let_def rk4_y_def)
        with True Inr fin show thesis by (intro step) simp_all
      qed
    qed
  qed
qed

lemma gsc_loop_raise:
  "generateSolutionCurve_loop s f h i x y points = Inl e \<Longrightarrow> \<exists>a b. f a b = Inl e"
proof (induction "maxSteps - i" arbitrary: i x y points)
  case 0
  then show ?case by (simp add: gsc_loop_done)
next
  case (Suc n)
  show ?case
  proof (cases rule: gsc_loop_unfold [of s f h i x y points])
    case stop
    with Suc.prems show ?thesis by simp
  next
    case (raise e')
    with Suc.prems show ?thesis by (auto dest: rk4_stages_raise)
  next
    case (step ks)
    with Suc.hyps(2) have "n = maxSteps - (i + 1)" by simp
    from Suc.hyps(1) [OF this] step(6) Suc.prems show ?thesis by simp
  qed
qed

lemma gsc_loop_length:
  "generateSolutionCurve_loop s f h i x y points = Inr pts \<Longrightarrow>
   length pts \<le> length points + (maxSteps - i)"
proof (induction "maxSteps - i" arbitrary: i x y points)
  case 0
  then show ?case by (simp add: gsc_loop_done)
next
  case (Suc n)
  show ?case
  proof (cases rule: gsc_loop_unfold [of s f h i x y points])
    case stop
    with Suc.prems show ?thesis by simp
  next
    case (raise e')
    with Suc.prems show ?thesis by simp
  next
    case (step ks)
    with Suc.hyps(2) have n: "n = maxSteps - (i + 1)" by simp
    from step(6) Suc.prems
    have "generateSolutionCurve_loop s f h (i + 1) (x + h) (rk4_y y ks)
           (points @ [(x + h, rk4_y y ks)]) = Inr pts" by simp
    from Suc.hyps(1) [OF n this] step(1) show ?thesis by simp
  qed
qed


lemma gsc_cases:
  "(\<exists>e a b. generateSolutionCurve s f x0 y0 direction = Inl e \<and> f a b = Inl e) \<or>
   (\<exists>pts. generateSolutionCurve s f x0 y0 direction = Inr pts)"
proof (cases "generateSolutionCurve s f x0 y0 direction")
  case (Inl e)
  then have "\<exists>a b. f a b = Inl e"
    by (auto simp: generateSolutionCurve_def Let_def dest: gsc_loop_raise)
  with Inl show ?thesis by auto
next
  case (Inr pts)
  then show ?thesis by auto
qed

lemma gsc_loop_box:
  assumes nan: "fst (xRange s) \<noteq> NaN" "snd (xRange s) \<noteq> NaN"
    "fst (yRange s) \<noteq> NaN" "snd (yRange s) \<noteq> NaN"
  shows "generateSolutionCurve_loop s f h i x y points = Inr pts \<Longrightarrow>
    points \<noteq> [] \<Longrightarrow> last points = (x, y) \<Longrightarrow>
    \<forall>p \<in> set (butlast points). in_rectangle s p \<Longrightarrow>
    pts \<noteq> [] \<and> (\<forall>p \<in> set (butlast pts). in_rectangle s p)"
proof (induction "maxSteps - i" arbitrary: i x y points)
  case 0
  then show ?case by (simp add: gsc_loop_done)
next
  case (Suc n)
  show ?case
  proof (cases rule: gsc_loop_unfold [of s f h i x y points])
    case stop
    with Suc.prems show ?thesis by simp
  next
    case (raise e')
    with Suc.prems show ?thesis by simp
  next
    case (step ks)
    with Suc.hyps(2) have n: "n = maxSteps - (i + 1)" by simp
    from step(6) Suc.prems(1)
    have run: "generateSolutionCurve_loop s f h (i + 1) (x + h) (rk4_y y ks)
           (points @ [(x + h, rk4_y y ks)]) = Inr pts" by simp
    from step(4) have fx: "isFinite x" by (rule isFinite_plus [THEN conjunct1])
    obtain k1 k2 k3 k4 where ks: "ks = (k1, k2, k3, k4)" by (cases ks) auto
    from step(5) have "isFinite (y + (k1 + Fin 2 * k2 + Fin 2 * k3 + k4) / Fin 6)"
      by (simp add: rk4_y_def ks)
    then have fy: "isFinite y"
      by (rule isFinite_plus [THEN conjunct1])
    from nan fx fy step(2) have here: "in_rectangle s (x, y)"
      by (rule not_outside_in_rectangle)
    have "set points = set (butlast points) \<union> {last points}"
      using Suc.prems(2) by (cases points rule: rev_cases) auto
    with here Suc.prems(3,4) have "\<forall>p \<in> set points. in_rectangle s p"
      by auto
    then have "\<forall>p \<in> set (butlast (points @ [(x + h, rk4_y y ks)])). in_rectangle s p"
      by simp
    from Suc.hyps(1) [OF n run _ _ this] show ?thesis by simp
  qed
qed

lemma isFinite_rk4_y:
  assumes "isFinite (y + (k1 + Fin 2 * k2 + Fin 2 * k3 + k4) / Fin 6)"
  shows "isFinite k1 \<and> isFinite k2 \<and> isFinite k3 \<and> isFinite k4"
proof -
  have d: "isFinite a" if "isFinite (a / Fin 6)" for a
    using that by (cases a) simp_all
  have m: "isFinite a" if "isFinite (Fin 2 * a)" for a
    using that by (cases a) simp_all
  from assms have "isFinite ((k1 + Fin 2 * k2 + Fin 2 * k3 + k4) / Fin 6)"
    by (rule isFinite_plus [THEN conjunct2])
  then have a: "isFinite (k1 + Fin 2 * k2 + Fin 2 * k3 + k4)" by (rule d)
  then have k4: "isFinite k4" by (rule isFinite_plus [THEN conjunct2])
  from a have b: "isFinite (k1 + Fin 2 * k2 + Fin 2 * k3)" by (rule isFinite_plus [THEN conjunct1])
  then have "isFinite (Fin 2 * k3)" by (rule isFinite_plus [THEN conjunct2])
  then have k3: "isFinite k3" by (rule m)
  from b have c: "isFinite (k1 + Fin 2 * k2)" by (rule isFinite_plus [THEN conjunct1])
  then have "isFinite (Fin 2 * k2)" by (rule isFinite_plus [THEN conjunct2])
  then have k2: "isFinite k2" by (rule m)
  from c have k1: "isFinite k1" by (rule isFinite_plus [THEN conjunct1])
  from k1 k2 k3 k4 show ?thesis by simp
qed










lemmas gsc_eval = generateSolutionCurve_def generateSolutionCurve_loop.simps rk4_stages_def
  outside_def initial_viz_state_def maxSteps_def

lemma gsc_const0_398:
  "generateSolutionCurve initial_viz_state (\<lambda>x y. Inr (Fin 0)) (lit (199 / 50)) (Fin 0) (Fin 1)
     = Inr [(lit (199 / 50), Fin 0), (lit (403 / 100), Fin 0)]"
  by (simp add: gsc_eval eval64)

lemma gsc_const0_396:
  "generateSolutionCurve initial_viz_state (\<lambda>x y. Inr (Fin 0)) (lit (99 / 25)) (Fin 1) (Fin 1)
     = Inr [(lit (99 / 25), Fin 1), (lit (401 / 100), Fin 1)]"
  by (simp add: gsc_eval eval64)

text \<open>
  C2 (as amended). In the rectangle mode, for every slope function, seed and direction,
  either the slope function throws, or a trajectory is returned and every point of it
  except possibly the last lies within the rectangle \<open>[xMin, xMax] \<times> [yMin, yMax]\<close>.
  The point that left the rectangle is emitted: it is the last point. The bounds are
  numbers other than \<open>NaN\<close>.
\<close>

theorem gsc_all_but_last_within:
  assumes "fst (xRange s) \<noteq> NaN" "snd (xRange s) \<noteq> NaN"
    "fst (yRange s) \<noteq> NaN" "snd (yRange s) \<noteq> NaN"
  shows "(\<exists>e a b. generateSolutionCurve s f x0 y0 direction = Inl e \<and> f a b = Inl e) \<or>
    (\<exists>pts. generateSolutionCurve s f x0 y0 direction = Inr pts \<and> pts \<noteq> [] \<and>
       (\<forall>p \<in> set (butlast pts). in_rectangle s p))"
proof -
  from gsc_cases [of s f x0 y0 direction] show ?thesis
  proof
    assume "\<exists>e a b. generateSolutionCurve s f x0 y0 direction = Inl e \<and> f a b = Inl e"
    then show ?thesis ..
  next
    assume "\<exists>pts. generateSolutionCurve s f x0 y0 direction = Inr pts"
    then obtain pts where pts: "generateSolutionCurve s f x0 y0 direction = Inr pts" ..
    then have "generateSolutionCurve_loop s f (lit (5 / 100) * direction) 0 x0 y0 [(x0, y0)]
                 = Inr pts"
      by (simp add: generateSolutionCurve_def Let_def)
    from gsc_loop_box [OF assms this] have "pts \<noteq> [] \<and> (\<forall>p \<in> set (butlast pts). in_rectangle s p)"
      by simp
    with pts show ?thesis by auto
  qed
qed


text \<open>
  Witness for C2: the initial rectangle \<open>[-4, 4] \<times> [-3, 3]\<close>, slope 0, seed
  \<open>(3.96, 1)\<close>, forward.
\<close>

theorem gsc_all_but_last_within_witness:
  "fst (xRange initial_viz_state) \<noteq> NaN \<and> snd (xRange initial_viz_state) \<noteq> NaN \<and>
   fst (yRange initial_viz_state) \<noteq> NaN \<and> snd (yRange initial_viz_state) \<noteq> NaN \<and>
   generateSolutionCurve initial_viz_state (\<lambda>x y. Inr (Fin 0)) (lit (99 / 25)) (Fin 1) (Fin 1)
     = Inr [(lit (99 / 25), Fin 1), (lit (401 / 100), Fin 1)] \<and>
   in_rectangle initial_viz_state (lit (99 / 25), Fin 1)"
proof -
  have b: "fst (xRange initial_viz_state) \<noteq> NaN" "snd (xRange initial_viz_state) \<noteq> NaN"
    "fst (yRange initial_viz_state) \<noteq> NaN" "snd (yRange initial_viz_state) \<noteq> NaN"
    by (simp_all add: initial_viz_state_def)
  from gsc_all_but_last_within
    [OF b, of "\<lambda>x y. Inr (Fin 0)" "lit (99 / 25)" "Fin 1" "Fin 1"]
  have c: "in_rectangle initial_viz_state (lit (99 / 25), Fin 1)"
    by (simp add: gsc_const0_396)
  show ?thesis
    by (intro conjI b gsc_const0_396 c)
qed

text \<open>
  Counterexample to C2 as stated: with slope 0 and the seed \<open>(3.98, 0)\<close> the forward
  trajectory ends with the point \<open>(4.03, 0)\<close>, which lies outside \<open>[-4, 4] \<times> [-3, 3]\<close>.
\<close>

theorem gsc_emits_out_of_range_point:
  "generateSolutionCurve initial_viz_state (\<lambda>x y. Inr (Fin 0)) (lit (199 / 50)) (Fin 0) (Fin 1)
     = Inr [(lit (199 / 50), Fin 0), (lit (403 / 100), Fin 0)] \<and>
   \<not> in_rectangle initial_viz_state (lit (403 / 100), Fin 0)"
proof
  show "generateSolutionCurve initial_viz_state (\<lambda>x y. Inr (Fin 0)) (lit (199 / 50)) (Fin 0) (Fin 1)
     = Inr [(lit (199 / 50), Fin 0), (lit (403 / 100), Fin 0)]"
    by (rule gsc_const0_398)
  show "\<not> in_rectangle initial_viz_state (lit (403 / 100), Fin 0)"
    by (simp add: in_rectangle_def initial_viz_state_def eval64)
qed

text \<open>
  C4. The rectangle mode always terminates (the loop is a total function, by the
  measure \<open>maxSteps - i\<close>): for every slope function, seed and direction, either the
  slope function throws, or the returned trajectory has at most \<open>maxSteps + 1 = 201\<close>
  points.
\<close>

theorem gsc_at_most_201_points:
  "(\<exists>e a b. generateSolutionCurve s f x0 y0 direction = Inl e \<and> f a b = Inl e) \<or>
   (\<exists>pts. generateSolutionCurve s f x0 y0 direction = Inr pts \<and>
      length pts \<le> maxSteps + 1 \<and> length pts \<le> 201)"
proof -
  from gsc_cases [of s f x0 y0 direction] show ?thesis
  proof
    assume "\<exists>e a b. generateSolutionCurve s f x0 y0 direction = Inl e \<and> f a b = Inl e"
    then show ?thesis ..
  next
    assume "\<exists>pts. generateSolutionCurve s f x0 y0 direction = Inr pts"
    then obtain pts where pts: "generateSolutionCurve s f x0 y0 direction = Inr pts" ..
    then have "generateSolutionCurve_loop s f (lit (5 / 100) * direction) 0 x0 y0 [(x0, y0)]
                 = Inr pts"
      by (simp add: generateSolutionCurve_def Let_def)
    from gsc_loop_length [OF this] have "length pts \<le> maxSteps + 1" by simp
    with pts show ?thesis by (auto simp: maxSteps_def)
  qed
qed



text \<open>Witness for C4: the trajectory of two points computed above.\<close>

theorem gsc_at_most_201_points_witness:
  "generateSolutionCurve initial_viz_state (\<lambda>x y. Inr (Fin 0)) (lit (99 / 25)) (Fin 1) (Fin 1)
     = Inr [(lit (99 / 25), Fin 1), (lit (401 / 100), Fin 1)] \<and>
   length [(lit (99 / 25), Fin 1), (lit (401 / 100), Fin 1)] \<le> maxSteps + 1"
proof -
  from gsc_at_most_201_points
    [of initial_viz_state "\<lambda>x y. Inr (Fin 0)" "lit (99 / 25)" "Fin 1" "Fin 1"]
  have "length [(lit (99 / 25), Fin 1), (lit (401 / 100), Fin 1)] \<le> maxSteps + 1"
    by (simp add: gsc_const0_396)
  with gsc_const0_396 show ?thesis by simp
qed

text \<open>
  C8 (as amended). In the rectangle mode, an integration started from a seed that the
  loop's test does not reject (a seed on an edge is not rejected: the comparisons are
  strict), whose first Runge-Kutta step is finite and leads out of the rectangle,
  accepts exactly one step beyond the seed: the returned trajectory is the seed followed
  by that point outside the rectangle.
\<close>

theorem gsc_edge_one_step:
  assumes seed: "\<not> outside s (x0, y0)"
    and stages: "rk4_stages f (lit (5 / 100) * direction) x0 y0 = Inr (k1, k2, k3, k4)"
    and x1: "x1 = x0 + lit (5 / 100) * direction"
    and y1: "y1 = y0 + (k1 + Fin 2 * k2 + Fin 2 * k3 + k4) / Fin 6"
    and fin: "isFinite x1" "isFinite y1"
    and out: "outside s (x1, y1)"
  shows "generateSolutionCurve s f x0 y0 direction = Inr [(x0, y0), (x1, y1)]"
proof -
  from fin(2) y1 have ks: "isFinite k1 \<and> isFinite k2 \<and> isFinite k3 \<and> isFinite k4"
    by (simp add: isFinite_rk4_y [of y0 k1 k2 k3 k4])
  have two: "generateSolutionCurve_loop s f (lit (5 / 100) * direction) 1 x1 y1
               [(x0, y0), (x1, y1)] = Inr [(x0, y0), (x1, y1)]"
    using out by (subst generateSolutionCurve_loop.simps) simp
  have "generateSolutionCurve_loop s f (lit (5 / 100) * direction) 0 x0 y0 [(x0, y0)]
          = generateSolutionCurve_loop s f (lit (5 / 100) * direction) 1 x1 y1
              [(x0, y0), (x1, y1)]"
    using seed stages ks fin x1 y1
    by (subst generateSolutionCurve_loop.simps) (simp add: maxSteps_def Let_def)
  with two show ?thesis
    by (simp add: generateSolutionCurve_def Let_def)
qed


text \<open>
  Witness for C8: the seed \<open>(4, 0)\<close> on the right edge of \<open>[-4, 4] \<times> [-3, 3]\<close>, slope 0,
  forward; the step leads to \<open>(4.05, 0)\<close>.
\<close>

theorem gsc_edge_one_step_witness:
  "\<not> outside initial_viz_state (Fin 4, Fin 0) \<and>
   rk4_stages (\<lambda>x y. Inr (Fin 0)) (lit (5 / 100) * Fin 1) (Fin 4) (Fin 0)
     = Inr (Fin 0, Fin 0, Fin 0, Fin 0) \<and>
   lit (81 / 20) = Fin 4 + lit (5 / 100) * Fin 1 \<and>
   Fin 0 = Fin 0 + (Fin 0 + Fin 2 * Fin 0 + Fin 2 * Fin 0 + Fin 0) / Fin 6 \<and>
   isFinite (lit (81 / 20)) \<and> isFinite (Fin 0) \<and>
   outside initial_viz_state (lit (81 / 20), Fin 0) \<and>
   generateSolutionCurve initial_viz_state (\<lambda>x y. Inr (Fin 0)) (Fin 4) (Fin 0) (Fin 1)
     = Inr [(Fin 4, Fin 0), (lit (81 / 20), Fin 0)]"
proof -
  have a: "\<not> outside initial_viz_state (Fin 4, Fin 0)"
    by (simp add: outside_def initial_viz_state_def)
  have b: "rk4_stages (\<lambda>x y. Inr (Fin 0)) (lit (5 / 100) * Fin 1) (Fin 4) (Fin 0)
             = Inr (Fin 0, Fin 0, Fin 0, Fin 0)"
    by (simp add: rk4_stages_def eval64)
  have c: "lit (81 / 20) = Fin 4 + lit (5 / 100) * Fin 1"
    by (simp add: eval64)
  have d: "Fin 0 = Fin 0 + (Fin 0 + Fin 2 * Fin 0 + Fin 2 * Fin 0 + Fin 0) / Fin 6"
    by (simp add: eval64)
  have e: "isFinite (lit (81 / 20))" "isFinite (Fin 0)"
    by (simp_all add: eval64)
  have f: "outside initial_viz_state (lit (81 / 20), Fin 0)"
    by (simp add: outside_def initial_viz_state_def eval64)
  note g = gsc_edge_one_step [OF a b c d e f]
  show ?thesis
    by (intro conjI a b c d e f g)
qed

text \<open>
  Counterexample to C8 as stated: from the seed \<open>(0, 3)\<close> on the upper edge, with slope 1
  (the field carries it upward, out of the rectangle), the forward trajectory is not the
  seed alone: the point \<open>(0.05, 3.05)\<close> is accepted.
\<close>

theorem gsc_edge_seed_not_alone:
  "generateSolutionCurve initial_viz_state (\<lambda>x y. Inr (Fin 1)) (Fin 0) (Fin 3) (Fin 1)
     = Inr [(Fin 0, Fin 3), (lit (5 / 100), lit (61 / 20))] \<and>
   generateSolutionCurve initial_viz_state (\<lambda>x y. Inr (Fin 1)) (Fin 0) (Fin 3) (Fin 1)
     \<noteq> Inr [(Fin 0, Fin 3)]"
  by (simp add: gsc_eval eval64)







section \<open>Properties of the solver component\<close>

lemma le_not_less_number: "(b::number) \<le> a \<Longrightarrow> \<not> a < b"
  by (cases a; cases b) simp_all

lemma rk4_loop_stop:
  "\<not> x < x_end \<Longrightarrow> rungeKutta4_loop f h x_end x y points = Some (Inr points)"
  by (subst rungeKutta4_loop.simps) simp

text \<open>
  The loop returns when no addition \<open>x + h\<close> is absorbed below \<open>b\<close>: each step then
  reaches a greater double, and two doubles differ by at least \<open>2^-1074\<close>.
\<close>

lemma rk4_loop_terminates:
  assumes h: "0 < hr"
    and na: "\<not> (\<exists>x. is_double x \<and> a \<le> x \<and> x < b \<and> Fin x + Fin hr = Fin x)"
  shows "is_double xr \<Longrightarrow> a \<le> xr \<Longrightarrow> b - xr \<le> real n * 2 powi (- 1074) \<Longrightarrow>
    \<exists>r. rungeKutta4_loop f (Fin hr) (Fin b) (Fin xr) y points = Some r \<and>
      (case r of
         Inl e \<Rightarrow> \<exists>u v. f u v = Inl e
       | Inr pts \<Rightarrow>
           if xr < b then \<exists>xl yl. last pts = (xl, yl) \<and> Fin b \<le> xl \<and> xl \<le> Fin b + Fin hr
           else pts = points)"
proof (induction n arbitrary: xr y points)
  case 0
  then have "\<not> xr < b" by simp
  then show ?case
    by (subst rungeKutta4_loop.simps) simp
next
  case (Suc n)
  show ?case
  proof (cases "xr < b")
    case False
    then show ?thesis by (subst rungeKutta4_loop.simps) simp
  next
    case True
    show ?thesis
    proof (cases "rk4_stages f (Fin hr) (Fin xr) y")
      case (Inl e)
      then have "\<exists>u v. f u v = Inl e" by (rule rk4_stages_raise)
      with True Inl show ?thesis by (subst rungeKutta4_loop.simps) simp
    next
      case (Inr ks)
      let ?y = "rk4_y y ks"
      let ?x = "Fin xr + Fin hr"
      let ?points = "points @ [(?x, ?y)]"
      have unfold: "rungeKutta4_loop f (Fin hr) (Fin b) (Fin xr) y points
              = rungeKutta4_loop f (Fin hr) (Fin b) ?x ?y ?points"
        using True Inr
        by (subst rungeKutta4_loop.simps) (simp add: rk4_y_def Let_def split: prod.splits)
      from h have h0: "0 \<le> hr" by simp
      have ge: "Fin xr \<le> ?x" by (rule add_nonneg_ge [OF Suc.prems(1) h0])
      from na Suc.prems(1,2) True have ne: "?x \<noteq> Fin xr" by blast
      from True have "xr \<le> b" by simp
      then have le_b: "?x \<le> Fin b + Fin hr" by (rule add_mono_left)
      show ?thesis
      proof (cases ?x)
        case (Fin v)
        then have dv: "is_double v" by (rule add_is_double)
        from ge ne Fin have lt: "xr < v" by simp
        from double_gap [OF Suc.prems(1) dv lt] Suc.prems(3)
        have bound: "b - v \<le> real n * 2 powi (- 1074)"
          by (simp add: algebra_simps)
        from lt Suc.prems(2) have av: "a \<le> v" by simp
        from Suc.IH [OF dv av bound, of ?y ?points] Fin obtain r where
          r: "rungeKutta4_loop f (Fin hr) (Fin b) ?x ?y ?points = Some r"
            "case r of
               Inl e \<Rightarrow> \<exists>u v. f u v = Inl e
             | Inr pts \<Rightarrow>
                 if v < b
                 then \<exists>xl yl. last pts = (xl, yl) \<and> Fin b \<le> xl \<and> xl \<le> Fin b + Fin hr
                 else pts = ?points"
          by auto
        show ?thesis
        proof (cases r)
          case (Inl e)
          with r unfold True show ?thesis by simp
        next
          case (Inr pts)
          have "\<exists>xl yl. last pts = (xl, yl) \<and> Fin b \<le> xl \<and> xl \<le> Fin b + Fin hr"
          proof (cases "v < b")
            case True
            with r(2) Inr show ?thesis by simp
          next
            case False
            with r(2) Inr have "last pts = (?x, ?y)" by simp
            moreover from False Fin have "Fin b \<le> ?x" by simp
            ultimately show ?thesis using le_b by blast
          qed
          with r(1) unfold True Inr show ?thesis by simp
        qed
      next
        case PInf
        then have "\<not> ?x < Fin b" by simp
        then have ret: "rungeKutta4_loop f (Fin hr) (Fin b) ?x ?y ?points = Some (Inr ?points)"
          by (rule rk4_loop_stop)
        from PInf have "Fin b \<le> ?x" by simp
        with le_b have "\<exists>xl yl. last ?points = (xl, yl) \<and> Fin b \<le> xl \<and> xl \<le> Fin b + Fin hr"
          by simp
        with ret unfold True show ?thesis by simp
      next
        case NInf
        with ge show ?thesis by simp
      next
        case NaN
        with ge show ?thesis by simp
      qed
    qed
  qed
qed

text \<open>
  The loop does not return from a point below \<open>x_end\<close> that one step leaves where
  it is.
\<close>

lemma rk4_loop_stuck:
  assumes lt: "x < x_end" and st: "rk4_stages f h x y = Inr ks" and fx: "x + h = x"
    and fy: "rk4_y y ks = y"
  shows "rungeKutta4_loop f h x_end x y points = None"
proof (rule ccontr)
  assume "rungeKutta4_loop f h x_end x y points \<noteq> None"
  then obtain r where r: "rungeKutta4_loop f h x_end x y points = Some r" by auto
  note ind = rungeKutta4_loop.raw_induct
    [where P = "\<lambda>f' h' x_end' x' y' points' r'.
        \<not> (f' = f \<and> h' = h \<and> x_end' = x_end \<and> x' = x \<and> y' = y)"
      and xa = "(((((f, h), x_end), x), y), points)" and ya = r, simplified prod.case]
  have "\<not> (f = f \<and> h = h \<and> x_end = x_end \<and> x = x \<and> y = y)"
  proof (rule ind)
    show "rungeKutta4_loop f h x_end x y points = Some r" by (rule r)
  next
    fix loop f' h' x_end' x' y' points' r'
    assume IH: "\<And>g k e u v ps q. loop g k e u v ps = Some q \<Longrightarrow>
        \<not> (g = f \<and> k = h \<and> e = x_end \<and> u = x \<and> v = y)"
      and body: "(if x' < x_end'
      then case rk4_stages f' h' x' y' of Inl e \<Rightarrow> Some (Inl e)
           | Inr (k1, k2, k3, k4) \<Rightarrow>
               let y'' = y' + (k1 + Fin 2 * k2 + Fin 2 * k3 + k4) / Fin 6;
                   x'' = x' + h'
               in loop f' h' x_end' x'' y'' (points' @ [(x'', y'')])
      else Some (Inr points')) = Some r'"
    show "\<not> (f' = f \<and> h' = h \<and> x_end' = x_end \<and> x' = x \<and> y' = y)"
    proof
      assume eq: "f' = f \<and> h' = h \<and> x_end' = x_end \<and> x' = x \<and> y' = y"
      obtain k1 k2 k3 k4 where ks: "ks = (k1, k2, k3, k4)" by (cases ks) auto
      from fy have fy': "y + (k1 + Fin 2 * k2 + Fin 2 * k3 + k4) / Fin 6 = y"
        by (simp add: rk4_y_def ks)
      from body eq lt st fx fy' have "loop f h x_end x y (points' @ [(x, y)]) = Some r'"
        by (simp add: ks Let_def)
      from IH [OF this] show False by simp
    qed
  qed
  then show False by simp
qed

text \<open>
  Counterexample to C10 as stated. With slope 0, \<open>x0 = -0.1\<close>, \<open>h = 0.3\<close> and
  \<open>xEnd = 0.2\<close> the run returns three points, and the \<open>x\<close> of the last one is \<open>0.5\<close>: the
  numbers \<open>0.2\<close> and \<open>0.3\<close> of the program add up to exactly \<open>0.5\<close>, as real numbers and
  in the arithmetic of the program, so \<open>x_last < xEnd + h\<close> fails. And from
  \<open>x0 = 10^16\<close> with \<open>h = 0.5\<close> and \<open>xEnd = 10^16 + 2\<close> the loop never returns:
  \<open>10^16 + 0.5\<close> rounds to \<open>10^16\<close>.
\<close>

theorem rungeKutta4_full_step_or_no_return:
  "rungeKutta4 (\<lambda>x y. Inr (Fin 0)) (lit (- (1 / 10))) (Fin 1) (lit (3 / 10)) (lit (1 / 5))
     = Some (Inr [(lit (- (1 / 10)), Fin 1), (Fin (7205759403792793 / 2 ^ 55), Fin 1),
                  (Fin (1 / 2), Fin 1)]) \<and>
   lit (1 / 5) = Fin (3602879701896397 / 2 ^ 54) \<and>
   lit (3 / 10) = Fin (5404319552844595 / 2 ^ 54) \<and>
   \<not> ((1 / 2 :: real) < 3602879701896397 / 2 ^ 54 + 5404319552844595 / 2 ^ 54) \<and>
   \<not> Fin (1 / 2) < lit (1 / 5) + lit (3 / 10) \<and>
   rungeKutta4 (\<lambda>x y. Inr (Fin 0)) (Fin (10 ^ 16)) (Fin 1) (Fin (1 / 2)) (Fin (10 ^ 16 + 2))
     = None"
proof -
  have a: "rungeKutta4 (\<lambda>x y. Inr (Fin 0)) (lit (- (1 / 10))) (Fin 1) (lit (3 / 10))
      (lit (1 / 5))
     = Some (Inr [(lit (- (1 / 10)), Fin 1), (Fin (7205759403792793 / 2 ^ 55), Fin 1),
                  (Fin (1 / 2), Fin 1)])"
    by (simp add: rungeKutta4_def rungeKutta4_loop.simps rk4_stages_def eval64)
  have b: "lit (1 / 5) = Fin (3602879701896397 / 2 ^ 54) \<and>
   lit (3 / 10) = Fin (5404319552844595 / 2 ^ 54) \<and>
   \<not> ((1 / 2 :: real) < 3602879701896397 / 2 ^ 54 + 5404319552844595 / 2 ^ 54) \<and>
   \<not> Fin (1 / 2) < lit (1 / 5) + lit (3 / 10)"
    by (simp add: eval64)
  have c: "rungeKutta4 (\<lambda>x y. Inr (Fin 0)) (Fin (10 ^ 16)) (Fin 1) (Fin (1 / 2))
      (Fin (10 ^ 16 + 2)) = None"
    unfolding rungeKutta4_def Let_def
    by (rule rk4_loop_stuck [where ks = "(Fin 0, Fin 0, Fin 0, Fin 0)"])
       (simp_all add: rk4_stages_def rk4_y_def eval64)
  from a b c show ?thesis by (intro conjI) blast+
qed

text \<open>
  C10 (as amended). In the solver's interval mode with a step size \<open>h > 0\<close> and finite
  \<open>x0 < xEnd\<close>: if no addition \<open>x + h\<close> is absorbed between \<open>x0\<close> and \<open>xEnd\<close> (no number
  \<open>x\<close> of the program with \<open>x0 \<le> x < xEnd\<close> has \<open>x + h = x\<close>), the loop returns, and unless
  the slope function throws, the \<open>x\<close> of the last point satisfies
  \<open>xEnd \<le> x_last \<le> xEnd + h\<close>, the sum being the rounded one of the program; the upper
  bound can be attained. If \<open>x0 \<ge> xEnd\<close> the returned trajectory is the seed point alone.
\<close>

theorem rungeKutta4_overshoot:
  "(is_double a \<and> 0 < hr \<and> a < b \<and>
    \<not> (\<exists>x. is_double x \<and> a \<le> x \<and> x < b \<and> Fin x + Fin hr = Fin x) \<longrightarrow>
      (\<exists>r. rungeKutta4 f (Fin a) y0 (Fin hr) (Fin b) = Some r \<and>
         (case r of
            Inl e \<Rightarrow> \<exists>u v. f u v = Inl e
          | Inr pts \<Rightarrow> \<exists>x_last y_last. last pts = (x_last, y_last) \<and>
                        Fin b \<le> x_last \<and> x_last \<le> Fin b + Fin hr))) \<and>
   (x_end \<le> x0 \<longrightarrow> rungeKutta4 f x0 y0 h x_end = Some (Inr [(x0, y0)]))"
proof (intro conjI impI)
  assume hyp: "is_double a \<and> 0 < hr \<and> a < b \<and>
    \<not> (\<exists>x. is_double x \<and> a \<le> x \<and> x < b \<and> Fin x + Fin hr = Fin x)"
  obtain n :: nat where "(b - a) / 2 powi (- 1074) \<le> real n"
    using real_arch_simple by blast
  then have n: "b - a \<le> real n * 2 powi (- 1074)"
    by (simp add: pos_divide_le_eq)
  from hyp have h: "0 < hr" and da: "is_double a"
    and na: "\<not> (\<exists>x. is_double x \<and> a \<le> x \<and> x < b \<and> Fin x + Fin hr = Fin x)"
    by simp_all
  from rk4_loop_terminates [OF h na da order_refl n, of f y0 "[(Fin a, y0)]"] obtain r where
    r: "rungeKutta4_loop f (Fin hr) (Fin b) (Fin a) y0 [(Fin a, y0)] = Some r"
      "case r of
         Inl e \<Rightarrow> \<exists>u v. f u v = Inl e
       | Inr pts \<Rightarrow>
           if a < b then \<exists>xl yl. last pts = (xl, yl) \<and> Fin b \<le> xl \<and> xl \<le> Fin b + Fin hr
           else pts = [(Fin a, y0)]"
    by blast
  from r(2) hyp have
    "case r of
       Inl e \<Rightarrow> \<exists>u v. f u v = Inl e
     | Inr pts \<Rightarrow> \<exists>x_last y_last. last pts = (x_last, y_last) \<and>
                   Fin b \<le> x_last \<and> x_last \<le> Fin b + Fin hr"
    by (cases r) simp_all
  with r(1)
  show "\<exists>r. rungeKutta4 f (Fin a) y0 (Fin hr) (Fin b) = Some r \<and>
         (case r of
            Inl e \<Rightarrow> \<exists>u v. f u v = Inl e
          | Inr pts \<Rightarrow> \<exists>x_last y_last. last pts = (x_last, y_last) \<and>
                        Fin b \<le> x_last \<and> x_last \<le> Fin b + Fin hr)"
    by (simp add: rungeKutta4_def)
next
  assume "x_end \<le> x0"
  then have "\<not> x0 < x_end" by (rule le_not_less_number)
  then show "rungeKutta4 f x0 y0 h x_end = Some (Inr [(x0, y0)])"
    by (simp add: rungeKutta4_def rk4_loop_stop)
qed

lemma unit_step_not_absorbed:
  "\<not> (\<exists>x. is_double x \<and> 0 \<le> x \<and> x < 2 \<and> Fin x + Fin 1 = Fin x)"
proof
  assume "\<exists>x. is_double x \<and> 0 \<le> x \<and> x < 2 \<and> Fin x + Fin 1 = Fin x"
  then obtain x where x: "0 \<le> x" "x < 2" "round64 (x + 1) = Fin x" by auto
  have r1: "round64 1 = Fin 1" and r2: "round64 2 = Fin 2"
    by (simp_all add: eval64)
  show False
  proof (cases "x < 1")
    case True
    from x(1) have "round64 1 \<le> round64 (x + 1)" by (intro round64_mono) simp
    with x(3) r1 True show False by simp
  next
    case False
    then have "round64 2 \<le> round64 (x + 1)" by (intro round64_mono) simp
    with x(2,3) r2 show False by simp
  qed
qed

text \<open>
  Witness for C10: the equation \<open>dy/dx = x + y\<close> from \<open>x0 = 0\<close> to \<open>xEnd = 2\<close> with
  \<open>h = 1\<close>, and from \<open>x0 = 3\<close>.
\<close>

theorem rungeKutta4_overshoot_witness:
  "is_double 0 \<and> (0::real) < 1 \<and> (0::real) < 2 \<and>
   \<not> (\<exists>x. is_double x \<and> 0 \<le> x \<and> x < 2 \<and> Fin x + Fin 1 = Fin x) \<and>
   (\<exists>r. rungeKutta4 (solver_parseEquation sample_evaluate ''dy/dx = x + y'')
           (Fin 0) (Fin 1) (Fin 1) (Fin 2) = Some r \<and>
      (case r of
         Inl e \<Rightarrow> \<exists>u v. solver_parseEquation sample_evaluate ''dy/dx = x + y'' u v = Inl e
       | Inr pts \<Rightarrow> \<exists>x_last y_last. last pts = (x_last, y_last) \<and>
                     Fin 2 \<le> x_last \<and> x_last \<le> Fin 2 + Fin 1)) \<and>
   Fin 2 \<le> Fin 3 \<and>
   rungeKutta4 (solver_parseEquation sample_evaluate ''dy/dx = x + y'')
     (Fin 3) (Fin 1) (Fin 1) (Fin 2) = Some (Inr [(Fin 3, Fin 1)])"
proof -
  have d: "is_double 0" by (simp add: is_double_def round64_def)
  have a1: "(0::real) < 1" and a2: "(0::real) < 2" by simp_all
  note na = unit_step_not_absorbed
  from d a1 a2 na have a: "is_double 0 \<and> (0::real) < 1 \<and> (0::real) < 2 \<and>
      \<not> (\<exists>x. is_double x \<and> 0 \<le> x \<and> x < 2 \<and> Fin x + Fin 1 = Fin x)"
    by (intro conjI)
  have b: "Fin 2 \<le> Fin 3" by simp
  note t1 = rungeKutta4_overshoot
    [of 0 1 2 "solver_parseEquation sample_evaluate ''dy/dx = x + y''" "Fin 1",
      THEN conjunct1, rule_format, OF a]
  note t2 = rungeKutta4_overshoot
    [of _ _ _ "solver_parseEquation sample_evaluate ''dy/dx = x + y''" "Fin 1"
      "Fin 2" "Fin 3" "Fin 1", THEN conjunct2, rule_format, OF b]
  show ?thesis
    by (intro conjI d a1 a2 na t1 b t2)
qed

lemma processedEq_x_plus_y: "processedEq ''dy/dx = x + y'' = ''x + y''"
  by (simp add: processedEq_def replace_caret_def match_dydx_def is_space_def)

lemma rungeKutta4_one_step:
  "rungeKutta4 (solver_parseEquation sample_evaluate ''dy/dx = x + y'')
     (Fin 0) (Fin 1) (lit (1 / 10)) (lit (1 / 10))
   = Some (Inr [(Fin 0, Fin 1), (lit (1 / 10), Fin (312533394765871 / 2 ^ 48))])"
  by (simp add: rungeKutta4_def rungeKutta4_loop.simps rk4_stages_def
    solver_parseEquation_def processedEq_x_plus_y sample_evaluate_def eval64)

lemma rungeKutta4_malformed:
  "rungeKutta4 (solver_parseEquation sample_evaluate ''dy/dx = x +'')
     (Fin 0) (Fin 1) (lit (1 / 10)) (lit (1 / 10))
   = Some (Inl (JsError ''Unexpected end of expression''))"
  by (simp add: rungeKutta4_def rungeKutta4_loop.simps rk4_stages_def
    solver_parseEquation_def processedEq_x_plus sample_evaluate_def eval64)

lemma trim_x_plus_y: "js_trim ''dy/dx = x + y'' \<noteq> []"
  by (simp add: js_trim_def is_space_def)

lemma trim_x_plus: "js_trim ''dy/dx = x +'' \<noteq> []"
  by (simp add: js_trim_def is_space_def)

text \<open>
  C7 fails on the code. A first solve of \<open>dy/dx = x + y\<close> from 0 to 0.1 leaves a
  trajectory of two points. Solving the malformed \<open>dy/dx = x +\<close> next makes the step
  log the single error step with the message of the evaluator, as the claim says, but
  the trajectory of the first solve is still there: the \<open>catch\<close> block does not reset
  \<open>solution\<close>.
\<close>

theorem solveEquation_error_keeps_stale_solution:
  "\<exists>s1 s2.
     solveEquation sample_evaluate toString (initial_solver_state\<lparr>xEnd := lit (1 / 10)\<rparr>)
       = Some s1 \<and>
     solution s1 = [(Fin 0, Fin 1), (lit (1 / 10), Fin (312533394765871 / 2 ^ 48))] \<and>
     solveEquation sample_evaluate toString (s1\<lparr>equation := ''dy/dx = x +''\<rparr>) = Some s2 \<and>
     solutionSteps s2 =
       [\<lparr>step = label_error, description = text_solve_failed,
         result = Some ''Unexpected end of expression''\<rparr>] \<and>
     solution s2 = [(Fin 0, Fin 1), (lit (1 / 10), Fin (312533394765871 / 2 ^ 48))] \<and>
     solution s2 \<noteq> []"
  by (simp add: solveEquation_def initial_solver_state_def Let_def trim_x_plus_y trim_x_plus
    rungeKutta4_one_step rungeKutta4_malformed error_message_def)

section \<open>Properties of the slope field sampling\<close>

lemma viz_slope_returned:
  "viz_parseEquation evaluate eqStr x y = Inr (viz_slope evaluate eqStr x y)"
  using viz_parseEquation_finite [of evaluate eqStr x y] by (auto simp add: viz_slope_def)

lemma viz_slope_finite: "isFinite (viz_slope evaluate eqStr x y)"
  using viz_parseEquation_finite [of evaluate eqStr x y] by (auto simp add: viz_slope_def)

lemma visits_unique: "visits vMax inc v ws \<Longrightarrow> visits vMax inc v ws' \<Longrightarrow> ws = ws'"
proof (induction ws arbitrary: v ws')
  case Nil
  then show ?case by (cases ws') simp_all
next
  case (Cons w ws)
  then show ?case by (cases ws') auto
qed

lemma grid_arrows_Nil: "grid_arrows g [] ys = []"
  by (simp add: grid_arrows_def)

lemma grid_arrows_Cons:
  "grid_arrows g (u # us) ys = map (\<lambda>v. (u, v, g u v)) ys @ grid_arrows g us ys"
  by (simp add: grid_arrows_def)


lemma y_loop_stop:
  "\<not> y \<le> yMax \<Longrightarrow> slopeField_y_loop f x yMax stepY y arrows = Some (Inr arrows)"
  by (subst slopeField_y_loop.simps) simp

lemma y_loop_step:
  assumes "y \<le> yMax"
  shows "slopeField_y_loop (viz_parseEquation evaluate eqStr) x yMax stepY y arrows
    = slopeField_y_loop (viz_parseEquation evaluate eqStr) x yMax stepY (y + stepY)
        (arrows @ [(x, y, viz_slope evaluate eqStr x y)])"
  using assms
  by (subst slopeField_y_loop.simps) (simp add: viz_slope_returned viz_slope_finite)

lemma x_loop_stop:
  "\<not> x \<le> snd (xRange s) \<Longrightarrow> slopeField_x_loop f s stepX stepY x arrows = Some (Inr arrows)"
  by (subst slopeField_x_loop.simps) simp

text \<open>
  When the loop variable takes the values \<open>ys\<close>, the inner loop returns one triple for each
  of them.
\<close>

lemma y_loop_visits:
  "visits yMax stepY y ys \<Longrightarrow>
   slopeField_y_loop (viz_parseEquation evaluate eqStr) x yMax stepY y arrows
     = Some (Inr (arrows @ map (\<lambda>v. (x, v, viz_slope evaluate eqStr x v)) ys))"
proof (induction ys arbitrary: y arrows)
  case Nil
  then show ?case by (simp add: y_loop_stop)
next
  case (Cons w ws)
  then have w: "w = y" and le: "y \<le> yMax" and rest: "visits yMax stepY (y + stepY) ws"
    by simp_all
  show ?case
    unfolding y_loop_step [OF le] Cons.IH [OF rest] by (simp add: w)
qed

lemma x_loop_visits:
  assumes ys: "visits (snd (yRange s)) stepY (fst (yRange s)) ys"
  shows "visits (snd (xRange s)) stepX x xs \<Longrightarrow>
   slopeField_x_loop (viz_parseEquation evaluate eqStr) s stepX stepY x arrows
     = Some (Inr (arrows @ grid_arrows (viz_slope evaluate eqStr) xs ys))"
proof (induction xs arbitrary: x arrows)
  case Nil
  then show ?case by (simp add: x_loop_stop grid_arrows_Nil)
next
  case (Cons w ws)
  then have w: "w = x" and le: "x \<le> snd (xRange s)"
    and rest: "visits (snd (xRange s)) stepX (x + stepX) ws"
    by simp_all
  have "slopeField_x_loop (viz_parseEquation evaluate eqStr) s stepX stepY x arrows
      = slopeField_x_loop (viz_parseEquation evaluate eqStr) s stepX stepY (x + stepX)
          (arrows @ map (\<lambda>v. (x, v, viz_slope evaluate eqStr x v)) ys)"
    by (subst slopeField_x_loop.simps)
      (simp only: le y_loop_visits [OF ys] if_True option.case sum.case)
  then show ?case
    unfolding Cons.IH [OF rest] by (simp add: w grid_arrows_Cons)
qed

text \<open>Conversely, a loop that returns has run over a finite list of values.\<close>

lemma y_loop_returns:
  assumes "slopeField_y_loop (viz_parseEquation evaluate eqStr) x yMax stepY y arrows
    = Some r"
  shows "\<exists>ys. visits yMax stepY y ys \<and>
    r = Inr (arrows @ map (\<lambda>v. (x, v, viz_slope evaluate eqStr x v)) ys)"
proof -
  let ?f = "viz_parseEquation evaluate eqStr"
  note ind = slopeField_y_loop.raw_induct
    [where P = "\<lambda>f' x' yMax' stepY' y' arrows' r'. f' = ?f \<longrightarrow>
        (\<exists>ys. visits yMax' stepY' y' ys \<and>
          r' = Inr (arrows' @ map (\<lambda>v. (x', v, viz_slope evaluate eqStr x' v)) ys))"
      and xa = "(((((?f, x), yMax), stepY), y), arrows)" and ya = r, simplified prod.case]
  have "?f = ?f \<longrightarrow> (\<exists>ys. visits yMax stepY y ys \<and>
          r = Inr (arrows @ map (\<lambda>v. (x, v, viz_slope evaluate eqStr x v)) ys))"
  proof (rule ind)
    show "slopeField_y_loop ?f x yMax stepY y arrows = Some r" by (rule assms)
  next
    fix loop f' x' yMax' stepY' y' arrows' r'
    assume IH: "\<And>g a m st v ar q. loop g a m st v ar = Some q \<Longrightarrow> g = ?f \<longrightarrow>
        (\<exists>ys. visits m st v ys \<and>
          q = Inr (ar @ map (\<lambda>w. (a, w, viz_slope evaluate eqStr a w)) ys))"
      and body: "(if y' \<le> yMax'
        then case f' x' y' of Inl e \<Rightarrow> Some (Inl e)
             | Inr slope \<Rightarrow>
                 if \<not> isFinite slope then loop f' x' yMax' stepY' (y' + stepY') arrows'
                 else loop f' x' yMax' stepY' (y' + stepY') (arrows' @ [(x', y', slope)])
        else Some (Inr arrows')) = Some r'"
    show "f' = ?f \<longrightarrow> (\<exists>ys. visits yMax' stepY' y' ys \<and>
          r' = Inr (arrows' @ map (\<lambda>v. (x', v, viz_slope evaluate eqStr x' v)) ys))"
    proof
      assume eq: "f' = ?f"
      show "\<exists>ys. visits yMax' stepY' y' ys \<and>
          r' = Inr (arrows' @ map (\<lambda>v. (x', v, viz_slope evaluate eqStr x' v)) ys)"
      proof (cases "y' \<le> yMax'")
        case False
        with body have "r' = Inr arrows'" by simp
        with False show ?thesis by (intro exI [of _ "[]"]) simp
      next
        case True
        with body eq have "loop ?f x' yMax' stepY' (y' + stepY')
            (arrows' @ [(x', y', viz_slope evaluate eqStr x' y')]) = Some r'"
          by (simp add: viz_slope_returned viz_slope_finite)
        from IH [OF this] obtain ys where
          "visits yMax' stepY' (y' + stepY') ys"
          "r' = Inr ((arrows' @ [(x', y', viz_slope evaluate eqStr x' y')])
                  @ map (\<lambda>w. (x', w, viz_slope evaluate eqStr x' w)) ys)"
          by auto
        with True show ?thesis by (intro exI [of _ "y' # ys"]) simp
      qed
    qed
  qed
  then show ?thesis by simp
qed

lemma x_loop_returns:
  assumes "slopeField_x_loop (viz_parseEquation evaluate eqStr) s stepX stepY x arrows
    = Some r"
  shows "\<exists>xs ys. visits (snd (xRange s)) stepX x xs \<and>
    (xs \<noteq> [] \<longrightarrow> visits (snd (yRange s)) stepY (fst (yRange s)) ys) \<and>
    r = Inr (arrows @ grid_arrows (viz_slope evaluate eqStr) xs ys)"
proof -
  let ?f = "viz_parseEquation evaluate eqStr"
  let ?g = "viz_slope evaluate eqStr"
  note ind = slopeField_x_loop.raw_induct
    [where P = "\<lambda>f' s' stepX' stepY' x' arrows' r'. f' = ?f \<longrightarrow>
        (\<exists>xs ys. visits (snd (xRange s')) stepX' x' xs \<and>
          (xs \<noteq> [] \<longrightarrow> visits (snd (yRange s')) stepY' (fst (yRange s')) ys) \<and>
          r' = Inr (arrows' @ grid_arrows ?g xs ys))"
      and xa = "(((((?f, s), stepX), stepY), x), arrows)" and y = r, simplified prod.case]
  have "?f = ?f \<longrightarrow> (\<exists>xs ys. visits (snd (xRange s)) stepX x xs \<and>
          (xs \<noteq> [] \<longrightarrow> visits (snd (yRange s)) stepY (fst (yRange s)) ys) \<and>
          r = Inr (arrows @ grid_arrows ?g xs ys))"
  proof (rule ind)
    show "slopeField_x_loop ?f s stepX stepY x arrows = Some r" by (rule assms)
  next
    fix loop f' s' stepX' stepY' x' arrows' r'
    assume IH: "\<And>g t sx sy v ar q. loop g t sx sy v ar = Some q \<Longrightarrow> g = ?f \<longrightarrow>
        (\<exists>xs ys. visits (snd (xRange t)) sx v xs \<and>
          (xs \<noteq> [] \<longrightarrow> visits (snd (yRange t)) sy (fst (yRange t)) ys) \<and>
          q = Inr (ar @ grid_arrows ?g xs ys))"
      and body: "(if x' \<le> snd (xRange s')
        then case slopeField_y_loop f' x' (snd (yRange s')) stepY' (fst (yRange s')) arrows' of
               None \<Rightarrow> None
             | Some (Inl e) \<Rightarrow> Some (Inl e)
             | Some (Inr arrows'') \<Rightarrow> loop f' s' stepX' stepY' (x' + stepX') arrows''
        else Some (Inr arrows')) = Some r'"
    show "f' = ?f \<longrightarrow> (\<exists>xs ys. visits (snd (xRange s')) stepX' x' xs \<and>
          (xs \<noteq> [] \<longrightarrow> visits (snd (yRange s')) stepY' (fst (yRange s')) ys) \<and>
          r' = Inr (arrows' @ grid_arrows ?g xs ys))"
    proof
      assume eq: "f' = ?f"
      show "\<exists>xs ys. visits (snd (xRange s')) stepX' x' xs \<and>
          (xs \<noteq> [] \<longrightarrow> visits (snd (yRange s')) stepY' (fst (yRange s')) ys) \<and>
          r' = Inr (arrows' @ grid_arrows ?g xs ys)"
      proof (cases "x' \<le> snd (xRange s')")
        case False
        with body have "r' = Inr arrows'" by simp
        with False show ?thesis
          by (intro exI [of _ "[]"]) (simp add: grid_arrows_Nil)
      next
        case True
        show ?thesis
        proof (cases "slopeField_y_loop ?f x' (snd (yRange s')) stepY' (fst (yRange s')) arrows'")
          case None
          with body eq True show ?thesis by simp
        next
          case (Some q)
          from y_loop_returns [OF Some] obtain ys where
            ys: "visits (snd (yRange s')) stepY' (fst (yRange s')) ys"
              "q = Inr (arrows' @ map (\<lambda>v. (x', v, ?g x' v)) ys)"
            by blast
          with body eq True Some have
            "loop ?f s' stepX' stepY' (x' + stepX') (arrows' @ map (\<lambda>v. (x', v, ?g x' v)) ys)
              = Some r'"
            by simp
          from IH [OF this] obtain xs ys' where
            xs: "visits (snd (xRange s')) stepX' (x' + stepX') xs"
              "xs \<noteq> [] \<longrightarrow> visits (snd (yRange s')) stepY' (fst (yRange s')) ys'"
              "r' = Inr ((arrows' @ map (\<lambda>v. (x', v, ?g x' v)) ys) @ grid_arrows ?g xs ys')"
            by auto
          have "grid_arrows ?g xs ys' = grid_arrows ?g xs ys"
          proof (cases xs)
            case Nil
            then show ?thesis by (simp add: grid_arrows_Nil)
          next
            case (Cons u us)
            with xs(2) have "visits (snd (yRange s')) stepY' (fst (yRange s')) ys'" by simp
            from visits_unique [OF this ys(1)] show ?thesis by simp
          qed
          with xs(3) have "r' = Inr (arrows' @ grid_arrows ?g (x' # xs) ys)"
            by (simp add: grid_arrows_Cons)
          with True xs(1) ys(1) show ?thesis
            by (intro exI [of _ "x' # xs"] exI [of _ ys]) simp
        qed
      qed
    qed
  qed
  then show ?thesis by simp
qed

lemma drawSlopeField_visits:
  assumes "visits (snd (xRange s)) ((snd (xRange s) - fst (xRange s)) / gridDensity s)
      (fst (xRange s)) xs"
    and "xs \<noteq> [] \<longrightarrow> visits (snd (yRange s)) ((snd (yRange s) - fst (yRange s)) / gridDensity s)
      (fst (yRange s)) ys"
  shows "drawSlopeField evaluate s
    = Some (Inr (grid_arrows (viz_slope evaluate (viz_equation s)) xs ys))"
proof (cases xs)
  case Nil
  with assms(1) show ?thesis
    by (simp add: drawSlopeField_def Let_def x_loop_stop grid_arrows_Nil)
next
  case (Cons u us)
  with assms(2) have ys: "visits (snd (yRange s))
      ((snd (yRange s) - fst (yRange s)) / gridDensity s) (fst (yRange s)) ys"
    by simp
  from x_loop_visits [OF ys assms(1), of evaluate "viz_equation s" "[]"] show ?thesis
    by (simp add: drawSlopeField_def Let_def)
qed

lemma drawSlopeField_returns:
  assumes "drawSlopeField evaluate s = Some r"
  shows "\<exists>xs ys.
    visits (snd (xRange s)) ((snd (xRange s) - fst (xRange s)) / gridDensity s)
      (fst (xRange s)) xs \<and>
    (xs \<noteq> [] \<longrightarrow> visits (snd (yRange s)) ((snd (yRange s) - fst (yRange s)) / gridDensity s)
      (fst (yRange s)) ys) \<and>
    r = Inr (grid_arrows (viz_slope evaluate (viz_equation s)) xs ys)"
proof -
  from assms have "slopeField_x_loop (viz_parseEquation evaluate (viz_equation s)) s
      ((snd (xRange s) - fst (xRange s)) / gridDensity s)
      ((snd (yRange s) - fst (yRange s)) / gridDensity s) (fst (xRange s)) [] = Some r"
    by (simp add: drawSlopeField_def Let_def)
  from x_loop_returns [OF this] show ?thesis by simp
qed



lemma viz_slope_NaN: "viz_slope (\<lambda>expr scope. Inr NaN) eqStr a b = Fin 0"
  by (simp add: viz_slope_def viz_parseEquation_def Let_def)

lemma visits_x_density_2:
  "visits (snd (xRange (initial_viz_state\<lparr>viz_equation := eqStr, gridDensity := Fin 2\<rparr>)))
     ((snd (xRange (initial_viz_state\<lparr>viz_equation := eqStr, gridDensity := Fin 2\<rparr>))
       - fst (xRange (initial_viz_state\<lparr>viz_equation := eqStr, gridDensity := Fin 2\<rparr>)))
      / gridDensity (initial_viz_state\<lparr>viz_equation := eqStr, gridDensity := Fin 2\<rparr>))
     (fst (xRange (initial_viz_state\<lparr>viz_equation := eqStr, gridDensity := Fin 2\<rparr>)))
     [Fin (- 4), Fin 0, Fin 4]"
  by (simp add: initial_viz_state_def eval64)

lemma visits_y_density_2:
  "visits (snd (yRange (initial_viz_state\<lparr>viz_equation := eqStr, gridDensity := Fin 2\<rparr>)))
     ((snd (yRange (initial_viz_state\<lparr>viz_equation := eqStr, gridDensity := Fin 2\<rparr>))
       - fst (yRange (initial_viz_state\<lparr>viz_equation := eqStr, gridDensity := Fin 2\<rparr>)))
      / gridDensity (initial_viz_state\<lparr>viz_equation := eqStr, gridDensity := Fin 2\<rparr>))
     (fst (yRange (initial_viz_state\<lparr>viz_equation := eqStr, gridDensity := Fin 2\<rparr>)))
     [Fin (- 3), Fin 0, Fin 3]"
  by (simp add: initial_viz_state_def eval64)









text \<open>
  C9. In the slope field component the compiled slope function returns a finite
  number at every point, whatever the evaluator does, so the test \<open>!isFinite(slope)\<close>
  of the sampling loop is never true and every point the loops visit gives its triple: the
  sampling returns a result exactly when the loop over \<open>x\<close> takes finitely many values
  \<open>xs\<close> and, unless there is none, the loop over \<open>y\<close> takes finitely many values \<open>ys\<close>, and
  the result is then the full grid, one triple for every pair of \<open>xs\<close> and \<open>ys\<close>, without
  a gap and without an exception.
\<close>

theorem slopeField_skip_unreachable:
  "viz_parseEquation evaluate (viz_equation s) x y
     = Inr (viz_slope evaluate (viz_equation s) x y) \<and>
   isFinite (viz_slope evaluate (viz_equation s) x y) \<and>
   (drawSlopeField evaluate s = Some r \<longleftrightarrow>
     (\<exists>xs ys.
        visits (snd (xRange s)) ((snd (xRange s) - fst (xRange s)) / gridDensity s)
          (fst (xRange s)) xs \<and>
        (xs \<noteq> [] \<longrightarrow>
           visits (snd (yRange s)) ((snd (yRange s) - fst (yRange s)) / gridDensity s)
             (fst (yRange s)) ys) \<and>
        r = Inr (grid_arrows (viz_slope evaluate (viz_equation s)) xs ys)))"
proof (intro conjI iffI)
  show "viz_parseEquation evaluate (viz_equation s) x y
     = Inr (viz_slope evaluate (viz_equation s) x y)"
    by (rule viz_slope_returned)
  show "isFinite (viz_slope evaluate (viz_equation s) x y)"
    by (rule viz_slope_finite)
next
  assume "drawSlopeField evaluate s = Some r"
  then show "\<exists>xs ys.
        visits (snd (xRange s)) ((snd (xRange s) - fst (xRange s)) / gridDensity s)
          (fst (xRange s)) xs \<and>
        (xs \<noteq> [] \<longrightarrow>
           visits (snd (yRange s)) ((snd (yRange s) - fst (yRange s)) / gridDensity s)
             (fst (yRange s)) ys) \<and>
        r = Inr (grid_arrows (viz_slope evaluate (viz_equation s)) xs ys)"
    by (rule drawSlopeField_returns)
next
  assume "\<exists>xs ys.
        visits (snd (xRange s)) ((snd (xRange s) - fst (xRange s)) / gridDensity s)
          (fst (xRange s)) xs \<and>
        (xs \<noteq> [] \<longrightarrow>
           visits (snd (yRange s)) ((snd (yRange s) - fst (yRange s)) / gridDensity s)
             (fst (yRange s)) ys) \<and>
        r = Inr (grid_arrows (viz_slope evaluate (viz_equation s)) xs ys)"
  then obtain xs ys where
    v: "visits (snd (xRange s)) ((snd (xRange s) - fst (xRange s)) / gridDensity s)
          (fst (xRange s)) xs"
      "xs \<noteq> [] \<longrightarrow>
           visits (snd (yRange s)) ((snd (yRange s) - fst (yRange s)) / gridDensity s)
             (fst (yRange s)) ys"
    and r: "r = Inr (grid_arrows (viz_slope evaluate (viz_equation s)) xs ys)"
    by blast
  from drawSlopeField_visits [OF v] r show "drawSlopeField evaluate s = Some r"
    by simp
qed

text \<open>
  Witness for C9: an evaluator that returns \<open>NaN\<close> everywhere, on the rectangle
  \<open>[-4, 4] \<times> [-3, 3]\<close> with density 2. Each loop visits three values, and the field has
  its nine triples, each with the slope 0.
\<close>

theorem slopeField_skip_unreachable_witness:
  "visits (Fin 4) ((Fin 4 - Fin (- 4)) / Fin 2) (Fin (- 4)) [Fin (- 4), Fin 0, Fin 4] \<and>
   [Fin (- 4), Fin 0, Fin 4] \<noteq> [] \<and>
   visits (Fin 3) ((Fin 3 - Fin (- 3)) / Fin 2) (Fin (- 3)) [Fin (- 3), Fin 0, Fin 3] \<and>
   drawSlopeField (\<lambda>expr scope. Inr NaN) (initial_viz_state\<lparr>gridDensity := Fin 2\<rparr>)
     = Some (Inr
        [(Fin (- 4), Fin (- 3), Fin 0), (Fin (- 4), Fin 0, Fin 0),
         (Fin (- 4), Fin 3, Fin 0), (Fin 0, Fin (- 3), Fin 0), (Fin 0, Fin 0, Fin 0),
         (Fin 0, Fin 3, Fin 0), (Fin 4, Fin (- 3), Fin 0), (Fin 4, Fin 0, Fin 0),
         (Fin 4, Fin 3, Fin 0)])"
proof -
  let ?s = "initial_viz_state\<lparr>viz_equation := ''dy/dx = x + y'', gridDensity := Fin 2\<rparr>"
  let ?r = "Inr (grid_arrows (viz_slope (\<lambda>expr scope. Inr NaN) (viz_equation ?s))
      [Fin (- 4), Fin 0, Fin 4] [Fin (- 3), Fin 0, Fin 3])"
  have s: "initial_viz_state\<lparr>gridDensity := Fin 2\<rparr> = ?s"
    by (simp add: initial_viz_state_def)
  have vx: "visits (Fin 4) ((Fin 4 - Fin (- 4)) / Fin 2) (Fin (- 4)) [Fin (- 4), Fin 0, Fin 4]"
    and vy: "visits (Fin 3) ((Fin 3 - Fin (- 3)) / Fin 2) (Fin (- 3)) [Fin (- 3), Fin 0, Fin 3]"
    by (simp_all add: eval64)
  have ne: "[Fin (- 4), Fin 0, Fin 4] \<noteq> []" by simp
  have "\<exists>xs ys.
        visits (snd (xRange ?s)) ((snd (xRange ?s) - fst (xRange ?s)) / gridDensity ?s)
          (fst (xRange ?s)) xs \<and>
        (xs \<noteq> [] \<longrightarrow>
           visits (snd (yRange ?s)) ((snd (yRange ?s) - fst (yRange ?s)) / gridDensity ?s)
             (fst (yRange ?s)) ys) \<and>
        ?r = Inr (grid_arrows (viz_slope (\<lambda>expr scope. Inr NaN) (viz_equation ?s)) xs ys)"
    using visits_x_density_2 [of "''dy/dx = x + y''"] visits_y_density_2 [of "''dy/dx = x + y''"]
    by (intro exI [of _ "[Fin (- 4), Fin 0, Fin 4]"] exI [of _ "[Fin (- 3), Fin 0, Fin 3]"])
      simp
  with slopeField_skip_unreachable
    [of "\<lambda>expr scope. Inr NaN" ?s "Fin 0" "Fin 0" ?r, THEN conjunct2, THEN conjunct2]
  have "drawSlopeField (\<lambda>expr scope. Inr NaN) ?s = Some ?r"
    by (rule iffD2)
  then have r: "drawSlopeField (\<lambda>expr scope. Inr NaN)
      (initial_viz_state\<lparr>gridDensity := Fin 2\<rparr>)
     = Some (Inr
        [(Fin (- 4), Fin (- 3), Fin 0), (Fin (- 4), Fin 0, Fin 0),
         (Fin (- 4), Fin 3, Fin 0), (Fin 0, Fin (- 3), Fin 0), (Fin 0, Fin 0, Fin 0),
         (Fin 0, Fin 3, Fin 0), (Fin 4, Fin (- 3), Fin 0), (Fin 4, Fin 0, Fin 0),
         (Fin 4, Fin 3, Fin 0)])"
    unfolding s by (simp add: grid_arrows_def viz_slope_NaN)
  show ?thesis
    by (intro conjI vx ne vy r)
qed

end
